theory Spec2Isabelle
  imports Complex_Main
begin

section \<open>Workspace state (workspaceState.js)\<close>

text \<open>
  A point is a JavaScript object with the two number fields \<open>x\<close> and \<open>y\<close>. Numbers are
  modelled as reals throughout: the claims about zoom are claims of real arithmetic.
\<close>

record point =
  px :: real
  py :: real

record note_t =
  note_id :: string
  note_x :: real
  note_y :: real
  note_width :: real
  note_height :: real
  note_text :: string
  note_selected :: bool
  note_color :: string

record link =
  link_id :: string
  link_from :: string
  link_to :: string

record workspace =
  ws_notes :: "note_t list"
  links :: "link list"
  zoom :: real
  offsetX :: real
  offsetY :: real

record selection =
  selectedNoteIds :: "string list"
  linkSourceId :: "string option"

definition initial_workspace :: workspace where
  "initial_workspace = \<lparr>ws_notes = [], links = [], zoom = 1, offsetX = 0, offsetY = 0\<rparr>"

definition initial_selection :: selection where
  "initial_selection = \<lparr>selectedNoteIds = [], linkSourceId = None\<rparr>"

definition MIN_ZOOM :: real where
  "MIN_ZOOM = 3 / 10"

definition MAX_ZOOM :: real where
  "MAX_ZOOM = 3"

definition worldToScreen :: "real \<Rightarrow> real \<Rightarrow> workspace \<Rightarrow> point" where
  "worldToScreen wx wy w =
     \<lparr>px = (wx + offsetX w) * zoom w, py = (wy + offsetY w) * zoom w\<rparr>"

definition screenToWorld :: "real \<Rightarrow> real \<Rightarrow> workspace \<Rightarrow> point" where
  "screenToWorld sx sy w =
     \<lparr>px = sx / zoom w - offsetX w, py = sy / zoom w - offsetY w\<rparr>"

definition applyZoom :: "real \<Rightarrow> real \<Rightarrow> real \<Rightarrow> workspace \<Rightarrow> workspace" where
  "applyZoom delta centerX centerY w =
     (let oldZoom = zoom w;
          factor = (if delta > 0 then 108 / 100 else 92 / 100);
          newZoom = max MIN_ZOOM (min MAX_ZOOM (oldZoom * factor))
      in if newZoom = oldZoom then w
         else let worldX = centerX / oldZoom - offsetX w;
                  worldY = centerY / oldZoom - offsetY w
              in w\<lparr>zoom := newZoom,
                    offsetX := centerX / newZoom - worldX,
                    offsetY := centerY / newZoom - worldY\<rparr>)"

definition applyZoomFactor :: "real \<Rightarrow> real \<Rightarrow> real \<Rightarrow> workspace \<Rightarrow> workspace" where
  "applyZoomFactor factor centerX centerY w =
     (let oldZoom = zoom w;
          newZoom = max MIN_ZOOM (min MAX_ZOOM (oldZoom * factor))
      in if \<bar>newZoom - oldZoom\<bar> < 1 / 1000 then w
         else let worldX = centerX / oldZoom - offsetX w;
                  worldY = centerY / oldZoom - offsetY w
              in w\<lparr>zoom := newZoom,
                    offsetX := centerX / newZoom - worldX,
                    offsetY := centerY / newZoom - worldY\<rparr>)"

text \<open>A call of one of the two zoom operations, and a sequence of such calls.\<close>

datatype zoom_call = ApplyZoom real real real | ApplyZoomFactor real real real

fun zoom_step :: "zoom_call \<Rightarrow> workspace \<Rightarrow> workspace" where
  "zoom_step (ApplyZoom delta cx cy) w = applyZoom delta cx cy w"
| "zoom_step (ApplyZoomFactor factor cx cy) w = applyZoomFactor factor cx cy w"

definition zoom_calls :: "zoom_call list \<Rightarrow> workspace \<Rightarrow> workspace" where
  "zoom_calls cs w = fold zoom_step cs w"

fun is_zoom_in :: "zoom_call \<Rightarrow> bool" where
  "is_zoom_in (ApplyZoom delta cx cy) = (delta > 0)"
| "is_zoom_in (ApplyZoomFactor factor cx cy) = False"

section \<open>Module state of the workspace, note and link models\<close>

text \<open>
  The three modules keep their state in module-level variables: the exported objects
  \<open>workspace\<close> and \<open>selection\<close>, and the private counters \<open>noteCounter\<close> and
  \<open>linkCounter\<close>. The model passes them around as one record.
\<close>

record app =
  workspace :: workspace
  selection :: selection
  noteCounter :: nat
  linkCounter :: nat

definition initial_app :: app where
  "initial_app = \<lparr>workspace = initial_workspace, selection = initial_selection,
                   noteCounter = 0, linkCounter = 0\<rparr>"

text \<open>
  A template literal prints a counter in decimal, without leading zeros.
\<close>

definition digit_char :: "nat \<Rightarrow> char" where
  "digit_char d = ''0123456789'' ! (d mod 10)"

function string_of_nat :: "nat \<Rightarrow> string" where
  "string_of_nat n =
     (if n < 10 then [digit_char n] else string_of_nat (n div 10) @ [digit_char (n mod 10)])"
  by pat_completeness auto
termination
  by (relation "measure id") auto

declare string_of_nat.simps [simp del]

subsection \<open>Selection (workspaceState.js)\<close>

definition clearSelection :: "app \<Rightarrow> app" where
  "clearSelection s =
     s\<lparr>selection := (selection s)\<lparr>selectedNoteIds := []\<rparr>,
       workspace := (workspace s)\<lparr>ws_notes :=
         map (\<lambda>n. n\<lparr>note_selected := False\<rparr>) (ws_notes (workspace s))\<rparr>\<rparr>"

definition selectNote :: "string \<Rightarrow> bool \<Rightarrow> app \<Rightarrow> app" where
  "selectNote noteId addToSelection s =
     (let s1 = (if \<not> addToSelection then clearSelection s else s);
          ids = selectedNoteIds (selection s1);
          ids' = (if noteId \<notin> set ids then ids @ [noteId] else ids)
      in s1\<lparr>selection := (selection s1)\<lparr>selectedNoteIds := ids'\<rparr>,
            workspace := (workspace s1)\<lparr>ws_notes :=
              map (\<lambda>n. n\<lparr>note_selected := (note_id n \<in> set ids')\<rparr>)
                  (ws_notes (workspace s1))\<rparr>\<rparr>)"

text \<open>
  \<open>find\<close> returns the first element that satisfies the test (or nothing), and the caller
  then mutates that one object in place.
\<close>

fun update_first :: "('a \<Rightarrow> bool) \<Rightarrow> ('a \<Rightarrow> 'a) \<Rightarrow> 'a list \<Rightarrow> 'a list" where
  "update_first P f [] = []"
| "update_first P f (v # vs) = (if P v then f v # vs else v # update_first P f vs)"

definition deselectNote :: "string \<Rightarrow> app \<Rightarrow> app" where
  "deselectNote noteId s =
     s\<lparr>selection := (selection s)\<lparr>selectedNoteIds :=
         filter (\<lambda>i. i \<noteq> noteId) (selectedNoteIds (selection s))\<rparr>,
       workspace := (workspace s)\<lparr>ws_notes :=
         update_first (\<lambda>n. note_id n = noteId) (\<lambda>n. n\<lparr>note_selected := False\<rparr>)
           (ws_notes (workspace s))\<rparr>\<rparr>"

definition getSelectedNotes :: "app \<Rightarrow> note_t list" where
  "getSelectedNotes s = filter note_selected (ws_notes (workspace s))"

subsection \<open>Links (linkModel.js)\<close>

definition connects :: "string \<Rightarrow> string \<Rightarrow> link \<Rightarrow> bool" where
  "connects fromId toId l \<longleftrightarrow>
     (link_from l = fromId \<and> link_to l = toId) \<or> (link_from l = toId \<and> link_to l = fromId)"

definition createLink :: "string \<Rightarrow> string \<Rightarrow> app \<Rightarrow> link option \<times> app" where
  "createLink fromId toId s =
     (if fromId = toId then (None, s)
      else if list_ex (connects fromId toId) (links (workspace s)) then (None, s)
      else let c = linkCounter s + 1;
               l = \<lparr>link_id = ''link_'' @ string_of_nat c, link_from = fromId, link_to = toId\<rparr>
           in (Some l,
               s\<lparr>linkCounter := c,
                 workspace := (workspace s)\<lparr>links := links (workspace s) @ [l]\<rparr>\<rparr>))"

definition deleteLink :: "string \<Rightarrow> app \<Rightarrow> app" where
  "deleteLink i s =
     s\<lparr>workspace := (workspace s)\<lparr>links :=
         filter (\<lambda>l. link_id l \<noteq> i) (links (workspace s))\<rparr>\<rparr>"

definition deleteLinksForNote :: "string \<Rightarrow> app \<Rightarrow> app" where
  "deleteLinksForNote noteId s =
     s\<lparr>workspace := (workspace s)\<lparr>links :=
         filter (\<lambda>l. link_from l \<noteq> noteId \<and> link_to l \<noteq> noteId) (links (workspace s))\<rparr>\<rparr>"

definition getLinksForNote :: "string \<Rightarrow> app \<Rightarrow> link list" where
  "getLinksForNote noteId s =
     filter (\<lambda>l. link_from l = noteId \<or> link_to l = noteId) (links (workspace s))"

subsection \<open>Notes (noteModel.js)\<close>

definition NOTE_COLORS :: "string list" where
  "NOTE_COLORS = [''#6366f1'', ''#8b5cf6'', ''#ec4899'', ''#10b981'',
                  ''#f59e0b'', ''#22d3ee'', ''#ef4444'', ''#3b82f6'']"

text \<open>
  The object literal of \<open>createNote\<close> evaluates its properties in order: \<open>id\<close> increments
  the counter first, and \<open>color\<close> reads the counter after the increment. The text
  parameter has the default value 'New Note', taken when the argument is left out.
\<close>

definition createNote :: "real \<Rightarrow> real \<Rightarrow> string option \<Rightarrow> app \<Rightarrow> note_t \<times> app" where
  "createNote worldX worldY txt s =
     (let width = 200;
          height = 120;
          c = noteCounter s + 1;
          n = \<lparr>note_id = ''note_'' @ string_of_nat c,
               note_x = worldX - width / 2,
               note_y = worldY - height / 2,
               note_width = width,
               note_height = height,
               note_text = (case txt of None \<Rightarrow> ''New Note'' | Some t \<Rightarrow> t),
               note_selected = False,
               note_color = NOTE_COLORS ! (c mod length NOTE_COLORS)\<rparr>
      in (n, s\<lparr>noteCounter := c,
                workspace := (workspace s)\<lparr>ws_notes := ws_notes (workspace s) @ [n]\<rparr>\<rparr>))"

definition deleteNote :: "string \<Rightarrow> app \<Rightarrow> app" where
  "deleteNote i s =
     (let s1 = deleteLinksForNote i s;
          s2 = s1\<lparr>workspace := (workspace s1)\<lparr>ws_notes :=
                   filter (\<lambda>n. note_id n \<noteq> i) (ws_notes (workspace s1))\<rparr>\<rparr>
      in s2\<lparr>selection := (selection s2)\<lparr>selectedNoteIds :=
               filter (\<lambda>sid. sid \<noteq> i) (selectedNoteIds (selection s2))\<rparr>\<rparr>)"

definition deleteSelectedNotes :: "app \<Rightarrow> app" where
  "deleteSelectedNotes s =
     (let ids = selectedNoteIds (selection s)
      in clearSelection (fold deleteNote ids s))"

definition moveNote :: "string \<Rightarrow> real \<Rightarrow> real \<Rightarrow> app \<Rightarrow> app" where
  "moveNote i dx dy s =
     s\<lparr>workspace := (workspace s)\<lparr>ws_notes :=
         update_first (\<lambda>n. note_id n = i)
           (\<lambda>n. n\<lparr>note_x := note_x n + dx, note_y := note_y n + dy\<rparr>)
           (ws_notes (workspace s))\<rparr>\<rparr>"

definition moveSelectedNotes :: "real \<Rightarrow> real \<Rightarrow> app \<Rightarrow> app" where
  "moveSelectedNotes dx dy s =
     fold (\<lambda>i. moveNote i dx dy) (selectedNoteIds (selection s)) s"

definition updateNoteText :: "string \<Rightarrow> string \<Rightarrow> app \<Rightarrow> app" where
  "updateNoteText i newText s =
     s\<lparr>workspace := (workspace s)\<lparr>ws_notes :=
         update_first (\<lambda>n. note_id n = i) (\<lambda>n. n\<lparr>note_text := newText\<rparr>)
           (ws_notes (workspace s))\<rparr>\<rparr>"

definition getNoteById :: "string \<Rightarrow> app \<Rightarrow> note_t option" where
  "getNoteById i s = find (\<lambda>n. note_id n = i) (ws_notes (workspace s))"

subsection \<open>Sequences of operations\<close>

datatype op =
    CreateNote real real "string option"
  | DeleteNote string
  | DeleteSelectedNotes
  | SelectNote string bool
  | DeselectNote string
  | ClearSelection
  | MoveNote string real real
  | MoveSelectedNotes real real
  | UpdateNoteText string string
  | CreateLink string string
  | DeleteLink string
  | DeleteLinksForNote string

fun exec :: "op \<Rightarrow> app \<Rightarrow> app" where
  "exec (CreateNote wx wy txt) s = snd (createNote wx wy txt s)"
| "exec (DeleteNote i) s = deleteNote i s"
| "exec DeleteSelectedNotes s = deleteSelectedNotes s"
| "exec (SelectNote i add) s = selectNote i add s"
| "exec (DeselectNote i) s = deselectNote i s"
| "exec ClearSelection s = clearSelection s"
| "exec (MoveNote i dx dy) s = moveNote i dx dy s"
| "exec (MoveSelectedNotes dx dy) s = moveSelectedNotes dx dy s"
| "exec (UpdateNoteText i t) s = updateNoteText i t s"
| "exec (CreateLink a b) s = snd (createLink a b s)"
| "exec (DeleteLink i) s = deleteLink i s"
| "exec (DeleteLinksForNote i) s = deleteLinksForNote i s"

definition run_ops :: "op list \<Rightarrow> app \<Rightarrow> app" where
  "run_ops ops s = fold exec ops s"

fun is_create :: "op \<Rightarrow> bool" where
  "is_create (CreateNote wx wy txt) = True"
| "is_create _ = False"

definition note_ids :: "app \<Rightarrow> string list" where
  "note_ids s = map note_id (ws_notes (workspace s))"

text \<open>
  A call that selects a note names a note of the workspace: every caller passes the
  id of the note found under the cursor.
\<close>

fun selects_existing :: "op \<Rightarrow> app \<Rightarrow> bool" where
  "selects_existing (SelectNote i add) s = (i \<in> set (note_ids s))"
| "selects_existing _ s = True"

fun run_selects_existing :: "op list \<Rightarrow> app \<Rightarrow> bool" where
  "run_selects_existing [] s = True"
| "run_selects_existing (c # cs) s =
     (selects_existing c s \<and> run_selects_existing cs (exec c s))"

definition flags_consistent :: "app \<Rightarrow> bool" where
  "flags_consistent s =
     list_all (\<lambda>n. note_selected n = (note_id n \<in> set (selectedNoteIds (selection s))))
       (ws_notes (workspace s))"

text \<open>
  What the note model maintains along a run: the flags agree with the selection, note ids
  are pairwise different, only notes of the workspace are selected, and every note id was
  issued by the counter.
\<close>

definition note_inv :: "app \<Rightarrow> bool" where
  "note_inv s \<longleftrightarrow>
     flags_consistent s
     \<and> distinct (note_ids s)
     \<and> set (selectedNoteIds (selection s)) \<subseteq> set (note_ids s)
     \<and> (\<forall>i \<in> set (note_ids s). \<exists>k. k \<le> noteCounter s \<and> i = ''note_'' @ string_of_nat k)"

definition flag_pairs :: "app \<Rightarrow> (string \<times> bool) list" where
  "flag_pairs s = map (\<lambda>n. (note_id n, note_selected n)) (ws_notes (workspace s))"

section \<open>Gesture engine (gestureEngine.js)\<close>

definition PINCH_THRESHOLD :: real where
  "PINCH_THRESHOLD = 6 / 100"

definition PINCH_DEBOUNCE_MS :: real where
  "PINCH_DEBOUNCE_MS = 120"

definition RELEASE_THRESHOLD :: real where
  "RELEASE_THRESHOLD = 9 / 100"

definition SMOOTHING_FACTOR :: real where
  "SMOOTHING_FACTOR = 4 / 10"

definition GESTURE_CONFIRM_FRAMES :: nat where
  "GESTURE_CONFIRM_FRAMES = 3"

definition THUMB_TIP :: nat where "THUMB_TIP = 4"
definition INDEX_MCP :: nat where "INDEX_MCP = 5"
definition INDEX_TIP :: nat where "INDEX_TIP = 8"
definition MIDDLE_MCP :: nat where "MIDDLE_MCP = 9"
definition MIDDLE_TIP :: nat where "MIDDLE_TIP = 12"
definition RING_MCP :: nat where "RING_MCP = 13"
definition RING_TIP :: nat where "RING_TIP = 16"
definition PINKY_MCP :: nat where "PINKY_MCP = 17"
definition PINKY_TIP :: nat where "PINKY_TIP = 20"

text \<open>The gesture modes are the strings 'point', 'pinch', 'fist', 'open' and 'none'.\<close>

datatype gesture = GPoint | GPinch | GFist | GOpen | GNone

text \<open>
  A landmark is a point with normalised coordinates; only its \<open>x\<close> and \<open>y\<close> are read.
  A missing landmark list (\<open>null\<close>) is \<open>None\<close>.
\<close>

record hand_state =
  detected :: bool
  landmarks :: "point list option"
  cursor :: point
  smoothCursor :: point
  prevSmoothCursor :: point
  isPinching :: bool
  pinchStartTime :: real
  pinchConfirmed :: bool
  pinchJustConfirmed :: bool
  pinchJustReleased :: bool
  gestureMode :: gesture
  prevGestureMode :: gesture
  gestureCandidate :: gesture
  gestureCandidateFrames :: nat

definition createHandState :: hand_state where
  "createHandState =
     \<lparr>detected = False,
      landmarks = None,
      cursor = \<lparr>px = 0, py = 0\<rparr>,
      smoothCursor = \<lparr>px = 0, py = 0\<rparr>,
      prevSmoothCursor = \<lparr>px = 0, py = 0\<rparr>,
      isPinching = False,
      pinchStartTime = 0,
      pinchConfirmed = False,
      pinchJustConfirmed = False,
      pinchJustReleased = False,
      gestureMode = GNone,
      prevGestureMode = GNone,
      gestureCandidate = GNone,
      gestureCandidateFrames = 0\<rparr>"

definition dist_pt :: "point \<Rightarrow> point \<Rightarrow> real" where
  "dist_pt a b = sqrt ((px a - px b) ^ 2 + (py a - py b) ^ 2)"

definition isFingerExtended :: "point list \<Rightarrow> nat \<Rightarrow> nat \<Rightarrow> bool" where
  "isFingerExtended lm tipIdx mcpIdx \<longleftrightarrow> py (lm ! tipIdx) < py (lm ! mcpIdx) - 2 / 100"

definition isFingerCurled :: "point list \<Rightarrow> nat \<Rightarrow> nat \<Rightarrow> bool" where
  "isFingerCurled lm tipIdx mcpIdx \<longleftrightarrow> py (lm ! tipIdx) > py (lm ! mcpIdx) + 1 / 100"

definition smooth :: "real \<Rightarrow> real \<Rightarrow> real \<Rightarrow> real" where
  "smooth current previous factor = previous + (current - previous) * factor"

definition classifyGesture :: "point list \<Rightarrow> gesture" where
  "classifyGesture lm =
     (let thumbIndexDist = dist_pt (lm ! THUMB_TIP) (lm ! INDEX_TIP)
      in if thumbIndexDist < PINCH_THRESHOLD then GPinch
         else let indexExtended = isFingerExtended lm INDEX_TIP INDEX_MCP;
                  middleExtended = isFingerExtended lm MIDDLE_TIP MIDDLE_MCP;
                  ringCurled = isFingerCurled lm RING_TIP RING_MCP;
                  pinkyCurled = isFingerCurled lm PINKY_TIP PINKY_MCP;
                  indexCurled = isFingerCurled lm INDEX_TIP INDEX_MCP;
                  middleCurled = isFingerCurled lm MIDDLE_TIP MIDDLE_MCP;
                  ringExtended = isFingerExtended lm RING_TIP RING_MCP;
                  pinkyExtended = isFingerExtended lm PINKY_TIP PINKY_MCP
              in if indexCurled \<and> middleCurled \<and> ringCurled \<and> pinkyCurled then GFist
                 else if indexExtended \<and> middleExtended \<and> ringExtended \<and> pinkyExtended
                   then GOpen
                 else if indexExtended \<and> middleCurled \<and> ringCurled \<and> pinkyCurled then GPoint
                 else if indexExtended then GPoint
                 else GNone)"

definition resetOneHand :: "hand_state \<Rightarrow> hand_state" where
  "resetOneHand h =
     h\<lparr>detected := False,
       landmarks := None,
       isPinching := False,
       pinchConfirmed := False,
       pinchJustConfirmed := False,
       pinchJustReleased := False,
       gestureMode := GNone,
       prevGestureMode := GNone,
       gestureCandidate := GNone,
       gestureCandidateFrames := 0\<rparr>"

text \<open>
  The body of \<open>processOneHand\<close> for a detected hand has three parts, in this order:
  the cursor, the gesture classification with its confirmation frames, and the pinch
  state machine. The pinch state machine reads the clock (\<open>performance.now()\<close>) up to
  twice in a frame: when a pinch engages, and when it measures the time elapsed since
  the engagement. The two readings are parameters of the model.
\<close>

definition updateCursor :: "point list \<Rightarrow> real \<Rightarrow> real \<Rightarrow> hand_state \<Rightarrow> hand_state" where
  "updateCursor lm canvasWidth canvasHeight h =
     (let indexTip = lm ! INDEX_TIP;
          rawX = (1 - px indexTip) * canvasWidth;
          rawY = py indexTip * canvasHeight
      in h\<lparr>prevSmoothCursor := \<lparr>px = px (smoothCursor h), py = py (smoothCursor h)\<rparr>,
            cursor := \<lparr>px = rawX, py = rawY\<rparr>,
            smoothCursor := \<lparr>px = smooth rawX (px (smoothCursor h)) SMOOTHING_FACTOR,
                             py = smooth rawY (py (smoothCursor h)) SMOOTHING_FACTOR\<rparr>\<rparr>)"

definition updateGesture :: "point list \<Rightarrow> hand_state \<Rightarrow> hand_state" where
  "updateGesture lm h =
     (let rawGesture = classifyGesture lm;
          h1 = (if rawGesture = gestureCandidate h
                then h\<lparr>gestureCandidateFrames := gestureCandidateFrames h + 1\<rparr>
                else h\<lparr>gestureCandidate := rawGesture, gestureCandidateFrames := 1\<rparr>);
          h2 = h1\<lparr>prevGestureMode := gestureMode h1\<rparr>
      in if gestureCandidateFrames h2 \<ge> GESTURE_CONFIRM_FRAMES
         then h2\<lparr>gestureMode := gestureCandidate h2\<rparr>
         else h2)"

definition pinchStateMachine :: "real \<Rightarrow> real \<Rightarrow> real \<Rightarrow> hand_state \<Rightarrow> hand_state" where
  "pinchStateMachine thumbIndexDist now1 now2 h =
     (let h0 = h\<lparr>pinchJustConfirmed := False, pinchJustReleased := False\<rparr>;
          wasPinching = isPinching h0;
          h1 = (if \<not> wasPinching \<and> thumbIndexDist < PINCH_THRESHOLD
                then h0\<lparr>isPinching := True, pinchStartTime := now1, pinchConfirmed := False\<rparr>
                else if wasPinching \<and> thumbIndexDist > RELEASE_THRESHOLD
                then h0\<lparr>isPinching := False,
                        pinchJustReleased := (if pinchConfirmed h0 then True
                                              else pinchJustReleased h0),
                        pinchConfirmed := False,
                        pinchStartTime := 0\<rparr>
                else h0)
      in if isPinching h1 \<and> \<not> pinchConfirmed h1
         then let elapsed = now2 - pinchStartTime h1
              in if elapsed \<ge> PINCH_DEBOUNCE_MS
                 then h1\<lparr>pinchConfirmed := True, pinchJustConfirmed := True\<rparr>
                 else h1
         else h1)"

definition processOneHand ::
  "hand_state \<Rightarrow> point list option \<Rightarrow> real \<Rightarrow> real \<Rightarrow> real \<Rightarrow> real \<Rightarrow> hand_state" where
  "processOneHand handState lms canvasWidth canvasHeight now1 now2 =
     (case lms of
        None \<Rightarrow> resetOneHand handState
      | Some lm \<Rightarrow>
          if length lm < 21 then resetOneHand handState
          else let h1 = handState\<lparr>detected := True, landmarks := Some lm\<rparr>;
                   h2 = updateCursor lm canvasWidth canvasHeight h1;
                   h3 = updateGesture lm h2;
                   thumbIndexDist = dist_pt (lm ! THUMB_TIP) (lm ! INDEX_TIP)
               in pinchStateMachine thumbIndexDist now1 now2 h3)"

text \<open>
  One camera frame for one hand role: the landmark list, the canvas size and the two
  clock readings. Running a list of frames gives the state after each frame.
\<close>

record frame =
  frame_landmarks :: "point list option"
  frame_width :: real
  frame_height :: real
  frame_now1 :: real
  frame_now2 :: real

definition process_frame :: "hand_state \<Rightarrow> frame \<Rightarrow> hand_state" where
  "process_frame h f =
     processOneHand h (frame_landmarks f) (frame_width f) (frame_height f)
       (frame_now1 f) (frame_now2 f)"

fun run_frames :: "hand_state \<Rightarrow> frame list \<Rightarrow> hand_state list" where
  "run_frames h [] = []"
| "run_frames h (f # fs) = process_frame h f # run_frames (process_frame h f) fs"

text \<open>The thumb-index distance a frame shows, when the hand is detected in it.\<close>

definition frame_dist :: "frame \<Rightarrow> real option" where
  "frame_dist f =
     (case frame_landmarks f of
        None \<Rightarrow> None
      | Some lm \<Rightarrow> if length lm < 21 then None
                   else Some (dist_pt (lm ! THUMB_TIP) (lm ! INDEX_TIP)))"

definition engages :: "frame \<Rightarrow> bool" where
  "engages f = (case frame_dist f of None \<Rightarrow> False | Some d \<Rightarrow> d < PINCH_THRESHOLD)"

definition holds :: "frame \<Rightarrow> bool" where
  "holds f = (case frame_dist f of None \<Rightarrow> False | Some d \<Rightarrow> \<not> d > RELEASE_THRESHOLD)"

definition releases :: "frame \<Rightarrow> bool" where
  "releases f = (case frame_dist f of None \<Rightarrow> False | Some d \<Rightarrow> d > RELEASE_THRESHOLD)"

text \<open>
  The time a frame measures since the engagement in frame \<open>f0\<close>: its reading of the
  clock at the elapsed-time check, minus the start time stored when \<open>f0\<close> engaged.
\<close>

definition elapsed_since :: "frame \<Rightarrow> frame \<Rightarrow> real" where
  "elapsed_since f0 f = frame_now2 f - frame_now1 f0"

section \<open>Project export (exportManager.js)\<close>

text \<open>
  The project is built as a JavaScript object before it is handed to
  \<open>JSON.stringify\<close>; an object is the list of its properties in the order written.
\<close>

datatype json =
    JNull
  | JBool bool
  | JNum real
  | JStr string
  | JArr "json list"
  | JObj "(string \<times> json) list"

definition PROJECT_VERSION :: string where
  "PROJECT_VERSION = ''1.0''"

definition note_record :: "note_t \<Rightarrow> json" where
  "note_record n =
     JObj [(''id'', JStr (note_id n)),
           (''x'', JNum (note_x n)),
           (''y'', JNum (note_y n)),
           (''width'', JNum (note_width n)),
           (''height'', JNum (note_height n)),
           (''text'', JStr (note_text n)),
           (''color'', JStr (note_color n))]"

definition link_record :: "link \<Rightarrow> json" where
  "link_record l =
     JObj [(''id'', JStr (link_id l)),
           (''from'', JStr (link_from l)),
           (''to'', JStr (link_to l))]"

text \<open>
  The result of an export: the value returned, and the download triggered (file name and
  the project that was serialised). The ISO timestamp and the file-name timestamp come
  from the system clock and are parameters.
\<close>

record export_result =
  returned :: bool
  download_name :: string
  project :: json

definition exportProjectJSON :: "workspace \<Rightarrow> string \<Rightarrow> string \<Rightarrow> export_result" where
  "exportProjectJSON w isoTime fileStamp =
     (let proj = JObj [(''version'', JStr PROJECT_VERSION),
                       (''timestamp'', JStr isoTime),
                       (''workspace'', JObj [(''zoom'', JNum (zoom w)),
                                            (''offsetX'', JNum (offsetX w)),
                                            (''offsetY'', JNum (offsetY w))]),
                       (''notes'', JArr (map note_record (ws_notes w))),
                       (''links'', JArr (map link_record (links w)))]
      in \<lparr>returned = True,
          download_name = ''visualnote_'' @ fileStamp @ ''.json'',
          project = proj\<rparr>)"

fun json_keys :: "json \<Rightarrow> string list" where
  "json_keys (JObj kvs) = map fst kvs"
| "json_keys _ = []"

fun json_get :: "string \<Rightarrow> json \<Rightarrow> json option" where
  "json_get k (JObj kvs) = map_of kvs k"
| "json_get k _ = None"

section \<open>Zoom: anchor invariance and clamping\<close>

lemma applyZoom_zoom_range:
  "MIN_ZOOM \<le> zoom w \<Longrightarrow> zoom w \<le> MAX_ZOOM \<Longrightarrow>
   MIN_ZOOM \<le> zoom (applyZoom delta cx cy w) \<and> zoom (applyZoom delta cx cy w) \<le> MAX_ZOOM"
  unfolding applyZoom_def Let_def MIN_ZOOM_def MAX_ZOOM_def
  by (simp add: max_def min_def)

lemma applyZoomFactor_zoom_range:
  "MIN_ZOOM \<le> zoom w \<Longrightarrow> zoom w \<le> MAX_ZOOM \<Longrightarrow>
   MIN_ZOOM \<le> zoom (applyZoomFactor f cx cy w) \<and> zoom (applyZoomFactor f cx cy w) \<le> MAX_ZOOM"
  unfolding applyZoomFactor_def Let_def MIN_ZOOM_def MAX_ZOOM_def
  by (simp add: max_def min_def)

lemma applyZoom_in_zoom:
  assumes "MIN_ZOOM \<le> zoom w" "zoom w \<le> MAX_ZOOM" "delta > 0"
  shows "zoom (applyZoom delta cx cy w) = min MAX_ZOOM (zoom w * (108 / 100))"
  using assms unfolding applyZoom_def Let_def MIN_ZOOM_def MAX_ZOOM_def
  by (auto simp: min_def max_def)

lemma min_cap_step:
  assumes "(0::real) < z" "1 \<le> p" "0 < m"
  shows "min m (min m (z * q) * p) = min m (z * q * p)"
proof (cases "z * q \<le> m")
  case True
  then show ?thesis by (simp add: min_def)
next
  case False
  then have big: "m < z * q" by simp
  have "m * 1 \<le> m * p" using assms by (intro mult_left_mono) simp_all
  moreover have "z * q * 1 \<le> z * q * p" using assms big by (intro mult_left_mono) simp_all
  ultimately show ?thesis using big by (simp add: min_def)
qed

lemma world_back_to_anchor:
  assumes "z \<noteq> 0" "z' \<noteq> (0::real)" "(wx + ox) * z = c"
  shows "(wx + (c / z' - (c / z - ox))) * z' = c"
proof -
  have e: "c / z = wx + ox" using assms(1,3) by (auto simp: field_simps)
  have "(wx + (c / z' - (c / z - ox))) * z' = c / z' * z'" unfolding e by simp
  also have "\<dots> = c" using assms(2) by simp
  finally show ?thesis .
qed

lemma zoom_step_range:
  assumes "MIN_ZOOM \<le> zoom w" "zoom w \<le> MAX_ZOOM"
  shows "MIN_ZOOM \<le> zoom (zoom_step c w) \<and> zoom (zoom_step c w) \<le> MAX_ZOOM"
  using assms by (cases c) (simp_all add: applyZoom_zoom_range applyZoomFactor_zoom_range)

lemma zoom_calls_range:
  "MIN_ZOOM \<le> zoom w \<Longrightarrow> zoom w \<le> MAX_ZOOM \<Longrightarrow>
   MIN_ZOOM \<le> zoom (zoom_calls cs w) \<and> zoom (zoom_calls cs w) \<le> MAX_ZOOM"
  unfolding zoom_calls_def
proof (induction cs arbitrary: w)
  case Nil
  then show ?case by simp
next
  case (Cons c cs)
  from zoom_step_range [OF Cons.prems, of c] Cons.IH [of "zoom_step c w"]
  show ?case by simp
qed

lemma zoom_in_calls_zoom:
  "MIN_ZOOM \<le> zoom w \<Longrightarrow> zoom w \<le> MAX_ZOOM \<Longrightarrow> list_all is_zoom_in cs \<Longrightarrow>
   zoom (zoom_calls cs w) = min MAX_ZOOM (zoom w * (108 / 100) ^ length cs)"
  unfolding zoom_calls_def
proof (induction cs arbitrary: w)
  case Nil
  then show ?case by (simp add: min_def)
next
  case (Cons c cs)
  from Cons.prems(3) obtain d cx cy where c: "c = ApplyZoom d cx cy" and d: "d > 0"
    by (cases c) auto
  let ?w = "zoom_step c w"
  have z: "zoom ?w = min MAX_ZOOM (zoom w * (108 / 100))"
    using applyZoom_in_zoom [OF Cons.prems(1,2) d] c by simp
  have r: "MIN_ZOOM \<le> zoom ?w" "zoom ?w \<le> MAX_ZOOM"
    using zoom_step_range [OF Cons.prems(1,2), of c] by auto
  have all: "list_all is_zoom_in cs" using Cons.prems(3) by simp
  have p: "(1::real) \<le> (108 / 100) ^ length cs"
    by (rule one_le_power) simp
  have pos: "0 < zoom w" using Cons.prems(1) by (simp add: MIN_ZOOM_def)
  have "zoom (fold zoom_step cs ?w) = min MAX_ZOOM (zoom ?w * (108 / 100) ^ length cs)"
    by (rule Cons.IH [OF r all])
  also have "\<dots> = min MAX_ZOOM (zoom w * (108 / 100) * (108 / 100) ^ length cs)"
    unfolding z by (rule min_cap_step [OF pos p]) (simp add: MAX_ZOOM_def)
  finally show ?case by (simp add: mult.assoc)
qed

lemma pow_108_15: "(3::real) \<le> (108 / 100) ^ 15"
  by (simp add: power_divide)

lemma pow_108_ge_15:
  assumes "15 \<le> n"
  shows "(3::real) \<le> (108 / 100) ^ n"
proof -
  have "(108 / 100 :: real) ^ 15 \<le> (108 / 100) ^ n"
    by (rule power_increasing [OF assms]) simp
  with pow_108_15 show ?thesis by linarith
qed

text \<open>
  C1. Anchor invariance of zoom: in a workspace whose zoom lies in [0.3, 3.0], every world
  point that worldToScreen maps to the screen anchor (cx, cy) before applyZoom(delta, cx, cy)
  is still mapped to (cx, cy) after the call, for every delta, offset and anchor; the same
  holds for applyZoomFactor(factor, cx, cy), for every factor (so for every positive one).
\<close>

theorem zoom_anchor_invariance:
  assumes "MIN_ZOOM \<le> zoom w" and "zoom w \<le> MAX_ZOOM"
    and "worldToScreen wx wy w = \<lparr>px = cx, py = cy\<rparr>"
  shows "worldToScreen wx wy (applyZoom delta cx cy w) = \<lparr>px = cx, py = cy\<rparr>
       \<and> worldToScreen wx wy (applyZoomFactor factor cx cy w) = \<lparr>px = cx, py = cy\<rparr>"
proof -
  have z: "zoom w \<noteq> 0" using assms(1) by (simp add: MIN_ZOOM_def)
  have x: "(wx + offsetX w) * zoom w = cx" and y: "(wy + offsetY w) * zoom w = cy"
    using assms(3) by (simp_all add: worldToScreen_def)
  have nz: "max MIN_ZOOM (min MAX_ZOOM t) \<noteq> 0" for t
    by (simp add: MIN_ZOOM_def MAX_ZOOM_def max_def min_def)
  have a: "worldToScreen wx wy (applyZoom delta cx cy w) = \<lparr>px = cx, py = cy\<rparr>"
    using assms(3) world_back_to_anchor [OF z nz x] world_back_to_anchor [OF z nz y]
    by (simp add: applyZoom_def Let_def worldToScreen_def)
  have b: "worldToScreen wx wy (applyZoomFactor factor cx cy w) = \<lparr>px = cx, py = cy\<rparr>"
    using assms(3) world_back_to_anchor [OF z nz x] world_back_to_anchor [OF z nz y]
    by (simp add: applyZoomFactor_def Let_def worldToScreen_def)
  from a b show ?thesis by simp
qed

text \<open>
  C2. Zoom clamping: from a workspace whose zoom lies in [0.3, 3.0], every finite sequence
  of applyZoom and applyZoomFactor calls leaves the zoom in [0.3, 3.0]. The initial zoom is
  1.0; from zoom 1.0, fifteen or more applyZoom calls with positive delta (any anchors)
  give zoom exactly 3.0; and at zoom 3.0 a further zoom-in call leaves the workspace
  unchanged.
\<close>

theorem zoom_clamping:
  "(MIN_ZOOM \<le> zoom w \<and> zoom w \<le> MAX_ZOOM \<longrightarrow>
      MIN_ZOOM \<le> zoom (zoom_calls cs w) \<and> zoom (zoom_calls cs w) \<le> MAX_ZOOM)
   \<and> (zoom w = 1 \<and> list_all is_zoom_in cs \<and> 15 \<le> length cs \<longrightarrow> zoom (zoom_calls cs w) = MAX_ZOOM)
   \<and> (zoom w = MAX_ZOOM \<and> 0 < delta \<longrightarrow> applyZoom delta cx cy w = w)
   \<and> zoom initial_workspace = 1 \<and> MIN_ZOOM = 3 / 10 \<and> MAX_ZOOM = 3"
proof -
  have a: "MIN_ZOOM \<le> zoom w \<and> zoom w \<le> MAX_ZOOM \<longrightarrow>
      MIN_ZOOM \<le> zoom (zoom_calls cs w) \<and> zoom (zoom_calls cs w) \<le> MAX_ZOOM"
    using zoom_calls_range by blast
  have b: "zoom (zoom_calls cs w) = MAX_ZOOM"
    if h: "zoom w = 1" "list_all is_zoom_in cs" "15 \<le> length cs"
  proof -
    have "zoom (zoom_calls cs w) = min MAX_ZOOM (zoom w * (108 / 100) ^ length cs)"
      using h by (intro zoom_in_calls_zoom) (simp_all add: MIN_ZOOM_def MAX_ZOOM_def)
    then show ?thesis using pow_108_ge_15 [OF h(3)] h(1) by (simp add: MAX_ZOOM_def min_def)
  qed
  have c: "applyZoom delta cx cy w = w" if "zoom w = MAX_ZOOM" "0 < delta"
    using that by (simp add: applyZoom_def Let_def MIN_ZOOM_def MAX_ZOOM_def)
  show ?thesis using a b c by (simp add: initial_workspace_def MIN_ZOOM_def MAX_ZOOM_def)
qed

theorem zoom_anchor_invariance_witness:
  "MIN_ZOOM \<le> zoom \<lparr>ws_notes = [], links = [], zoom = 2, offsetX = 10, offsetY = - 5\<rparr>
   \<and> zoom \<lparr>ws_notes = [], links = [], zoom = 2, offsetX = 10, offsetY = - 5\<rparr> \<le> MAX_ZOOM
   \<and> worldToScreen 40 30 \<lparr>ws_notes = [], links = [], zoom = 2, offsetX = 10, offsetY = - 5\<rparr>
       = \<lparr>px = 100, py = 50\<rparr>
   \<and> worldToScreen 40 30
        (applyZoom 1 100 50 \<lparr>ws_notes = [], links = [], zoom = 2, offsetX = 10, offsetY = - 5\<rparr>)
       = \<lparr>px = 100, py = 50\<rparr>
   \<and> worldToScreen 40 30
        (applyZoomFactor (3 / 4) 100 50
           \<lparr>ws_notes = [], links = [], zoom = 2, offsetX = 10, offsetY = - 5\<rparr>)
       = \<lparr>px = 100, py = 50\<rparr>"
proof -
  let ?w = "\<lparr>ws_notes = [], links = [], zoom = 2, offsetX = 10, offsetY = - 5\<rparr>"
  have h1: "MIN_ZOOM \<le> zoom ?w" by (simp add: MIN_ZOOM_def)
  have h2: "zoom ?w \<le> MAX_ZOOM" by (simp add: MAX_ZOOM_def)
  have h3: "worldToScreen 40 30 ?w = \<lparr>px = 100, py = 50\<rparr>"
    by (simp add: worldToScreen_def)
  from zoom_anchor_invariance [OF h1 h2 h3, of 1 "3 / 4"] h1 h2 h3
  show ?thesis by blast
qed

theorem zoom_clamping_witness:
  "zoom initial_workspace = 1
   \<and> list_all is_zoom_in (replicate 15 (ApplyZoom 1 640 360))
   \<and> 15 \<le> length (replicate 15 (ApplyZoom 1 640 360))
   \<and> zoom (zoom_calls (replicate 15 (ApplyZoom 1 640 360)) initial_workspace) = MAX_ZOOM
   \<and> zoom (initial_workspace\<lparr>zoom := 3\<rparr>) = MAX_ZOOM
   \<and> applyZoom 1 640 360 (initial_workspace\<lparr>zoom := 3\<rparr>) = initial_workspace\<lparr>zoom := 3\<rparr>
   \<and> MIN_ZOOM \<le> zoom (zoom_calls [ApplyZoomFactor 100 0 0, ApplyZoom (- 1) 5 5] initial_workspace)
   \<and> zoom (zoom_calls [ApplyZoomFactor 100 0 0, ApplyZoom (- 1) 5 5] initial_workspace) \<le> MAX_ZOOM"
proof -
  have h1: "zoom initial_workspace = 1" by (simp add: initial_workspace_def)
  have h2: "list_all is_zoom_in (replicate 15 (ApplyZoom 1 640 360))"
    by (simp add: list_all_iff)
  have h3: "15 \<le> length (replicate 15 (ApplyZoom 1 640 360))" by simp
  have h4: "zoom (initial_workspace\<lparr>zoom := 3\<rparr>) = MAX_ZOOM" by (simp add: MAX_ZOOM_def)
  have h5: "MIN_ZOOM \<le> zoom initial_workspace \<and> zoom initial_workspace \<le> MAX_ZOOM"
    by (simp add: initial_workspace_def MIN_ZOOM_def MAX_ZOOM_def)
  have h6: "(0::real) < 1" by simp
  from zoom_clamping [of initial_workspace "replicate 15 (ApplyZoom 1 640 360)" 1 0 0]
       zoom_clamping [of "initial_workspace\<lparr>zoom := 3\<rparr>" "[]" 1 640 360]
       zoom_clamping [of initial_workspace "[ApplyZoomFactor 100 0 0, ApplyZoom (- 1) 5 5]" 1 0 0]
       h1 h2 h3 h4 h5 h6
  show ?thesis by blast
qed

section \<open>Links: creation and cascading delete\<close>

lemma connects_sym: "connects a b = connects b a"
  by (auto simp: connects_def fun_eq_iff)

lemma createLink_self: "createLink a a s = (None, s)"
  by (simp add: createLink_def)

lemma createLink_dup:
  "list_ex (connects a b) (links (workspace s)) \<Longrightarrow> createLink a b s = (None, s)"
  by (simp add: createLink_def)

lemma createLink_new:
  assumes "a \<noteq> b" "\<not> list_ex (connects a b) (links (workspace s))"
  shows "createLink a b s =
           (Some \<lparr>link_id = ''link_'' @ string_of_nat (linkCounter s + 1),
                  link_from = a, link_to = b\<rparr>,
            s\<lparr>linkCounter := linkCounter s + 1,
              workspace := (workspace s)\<lparr>links := links (workspace s) @
                [\<lparr>link_id = ''link_'' @ string_of_nat (linkCounter s + 1),
                  link_from = a, link_to = b\<rparr>]\<rparr>\<rparr>)"
  using assms by (simp add: createLink_def Let_def)

lemma count_connects_pos:
  "list_ex (connects a b) ls \<Longrightarrow> 0 < length (filter (connects a b) ls)"
  by (induction ls) auto

lemma count_connects_zero:
  "\<not> list_ex (connects a b) ls \<Longrightarrow> filter (connects a b) ls = []"
  by (induction ls) auto

lemma createLink_links_count:
  assumes le: "length (filter (connects c d) (links (workspace s))) \<le> 1"
  shows "length (filter (connects c d) (links (workspace (snd (createLink a b s))))) \<le> 1"
proof (cases "a = b \<or> list_ex (connects a b) (links (workspace s))")
  case True
  then show ?thesis using le by (auto simp: createLink_def)
next
  case False
  let ?l = "\<lparr>link_id = ''link_'' @ string_of_nat (linkCounter s + 1),
             link_from = a, link_to = b\<rparr>"
  from False have new: "links (workspace (snd (createLink a b s))) = links (workspace s) @ [?l]"
    by (simp add: createLink_new)
  show ?thesis
  proof (cases "connects c d ?l")
    case True
    then have "connects c d = connects a b"
      by (auto simp: connects_def fun_eq_iff)
    with False have "filter (connects c d) (links (workspace s)) = []"
      by (simp add: count_connects_zero)
    then show ?thesis using new by simp
  next
    case False
    then show ?thesis using new le by simp
  qed
qed

text \<open>What each operation does to the list of links.\<close>

lemma links_clearSelection [simp]: "links (workspace (clearSelection s)) = links (workspace s)"
  by (simp add: clearSelection_def)

lemma links_selectNote [simp]: "links (workspace (selectNote i add s)) = links (workspace s)"
  by (simp add: selectNote_def Let_def)

lemma links_deselectNote [simp]: "links (workspace (deselectNote i s)) = links (workspace s)"
  by (simp add: deselectNote_def)

lemma links_createNote [simp]:
  "links (workspace (snd (createNote wx wy t s))) = links (workspace s)"
  by (simp add: createNote_def Let_def)

lemma links_moveNote [simp]: "links (workspace (moveNote i dx dy s)) = links (workspace s)"
  by (simp add: moveNote_def)

lemma links_updateNoteText [simp]: "links (workspace (updateNoteText i t s)) = links (workspace s)"
  by (simp add: updateNoteText_def)

lemma links_fold_moveNote [simp]:
  "links (workspace (fold (\<lambda>i. moveNote i dx dy) ids s)) = links (workspace s)"
  by (induction ids arbitrary: s) simp_all

lemma links_deleteNote:
  "links (workspace (deleteNote i s)) =
     filter (\<lambda>l. link_from l \<noteq> i \<and> link_to l \<noteq> i) (links (workspace s))"
  by (simp add: deleteNote_def deleteLinksForNote_def Let_def)

lemma filter_count_le:
  "length (filter Q (filter P ls)) \<le> length (filter Q ls)"
  by (induction ls) auto

lemma count_fold_deleteNote:
  "length (filter Q (links (workspace (fold deleteNote ids s))))
     \<le> length (filter Q (links (workspace s)))"
proof (induction ids arbitrary: s)
  case Nil
  show ?case by simp
next
  case (Cons i ids)
  have "length (filter Q (links (workspace (fold deleteNote ids (deleteNote i s)))))
          \<le> length (filter Q (links (workspace (deleteNote i s))))"
    by (rule Cons.IH)
  also have "\<dots> \<le> length (filter Q (links (workspace s)))"
    unfolding links_deleteNote by (rule filter_count_le)
  finally show ?case by simp
qed

lemma exec_links_count:
  assumes "length (filter (connects c d) (links (workspace s))) \<le> 1"
  shows "length (filter (connects c d) (links (workspace (exec e s)))) \<le> 1"
proof (cases e)
  case (CreateLink a b)
  then show ?thesis using createLink_links_count [OF assms] by simp
next
  case (DeleteNote i)
  have "length (filter (connects c d) (links (workspace (deleteNote i s))))
          \<le> length (filter (connects c d) (links (workspace s)))"
    unfolding links_deleteNote by (rule filter_count_le)
  with assms DeleteNote show ?thesis by simp
next
  case DeleteSelectedNotes
  have "length (filter (connects c d) (links (workspace (deleteSelectedNotes s))))
          \<le> length (filter (connects c d) (links (workspace s)))"
    by (simp add: deleteSelectedNotes_def Let_def count_fold_deleteNote)
  with assms DeleteSelectedNotes show ?thesis by simp
next
  case (DeleteLink i)
  have "length (filter (connects c d) (links (workspace (deleteLink i s))))
          \<le> length (filter (connects c d) (links (workspace s)))"
    unfolding deleteLink_def by (simp del: filter_filter add: filter_count_le)
  with assms DeleteLink show ?thesis by simp
next
  case (DeleteLinksForNote i)
  have "length (filter (connects c d) (links (workspace (deleteLinksForNote i s))))
          \<le> length (filter (connects c d) (links (workspace s)))"
    unfolding deleteLinksForNote_def by (simp del: filter_filter add: filter_count_le)
  with assms DeleteLinksForNote show ?thesis by simp
qed (use assms in \<open>simp_all add: moveSelectedNotes_def\<close>)

lemma run_ops_links_count:
  "length (filter (connects c d) (links (workspace s))) \<le> 1 \<Longrightarrow>
   length (filter (connects c d) (links (workspace (run_ops ops s)))) \<le> 1"
  unfolding run_ops_def
proof (induction ops arbitrary: s)
  case Nil
  then show ?case by simp
next
  case (Cons e ops)
  from Cons.IH [OF exec_links_count [OF Cons.prems, of e]] show ?case by simp
qed

lemma both_directions_one_link:
  assumes ne: "a \<noteq> b"
    and le: "length (filter (connects a b) (links (workspace s))) \<le> 1"
  shows "fst (createLink b a (snd (createLink a b s))) = None
       \<and> length (filter (connects a b)
           (links (workspace (snd (createLink b a (snd (createLink a b s))))))) = 1"
proof (cases "list_ex (connects a b) (links (workspace s))")
  case True
  then have ba: "list_ex (connects b a) (links (workspace s))"
    by (simp add: connects_sym [of b a])
  have 1: "createLink a b s = (None, s)" by (rule createLink_dup [OF True])
  have 2: "createLink b a s = (None, s)" by (rule createLink_dup [OF ba])
  from count_connects_pos [OF True] le
  have "length (filter (connects a b) (links (workspace s))) = 1" by linarith
  then show ?thesis by (simp add: 1 2)
next
  case False
  let ?l = "\<lparr>link_id = ''link_'' @ string_of_nat (linkCounter s + 1),
             link_from = a, link_to = b\<rparr>"
  let ?s = "snd (createLink a b s)"
  have new: "links (workspace ?s) = links (workspace s) @ [?l]"
    using ne False by (simp add: createLink_new)
  have "connects b a ?l" by (simp add: connects_def)
  then have "list_ex (connects b a) (links (workspace ?s))" by (simp add: new)
  then have 2: "createLink b a ?s = (None, ?s)" by (rule createLink_dup)
  have "length (filter (connects a b) (links (workspace ?s))) = 1"
    using count_connects_zero [OF False] by (simp add: new connects_def)
  then show ?thesis by (simp add: 2)
qed

text \<open>
  C3. Link de-duplication and self-link rejection: createLink(a, a) returns null and leaves
  the state (so workspace.links) unchanged; for a \<noteq> b, once a link between a and b exists
  in either direction, createLink(a, b) and createLink(b, a) return null and add nothing;
  and from a workspace with at most one link between a and b, createLink(a, b) followed by
  createLink(b, a) ends with exactly one link connecting the pair, the second call
  returning null. Every workspace reached from the initial one by the operations of the
  models has at most one link between any a and b.
\<close>

theorem createLink_rejects_self_and_duplicates:
  "createLink a a s = (None, s)
   \<and> (a \<noteq> b \<and> list_ex (connects a b) (links (workspace s)) \<longrightarrow>
        createLink a b s = (None, s) \<and> createLink b a s = (None, s))
   \<and> (a \<noteq> b \<and> length (filter (connects a b) (links (workspace s))) \<le> 1 \<longrightarrow>
        fst (createLink b a (snd (createLink a b s))) = None
        \<and> length (filter (connects a b)
            (links (workspace (snd (createLink b a (snd (createLink a b s))))))) = 1)
   \<and> length (filter (connects a b) (links (workspace (run_ops ops initial_app)))) \<le> 1"
proof -
  have d: "createLink a b s = (None, s) \<and> createLink b a s = (None, s)"
    if "list_ex (connects a b) (links (workspace s))"
    using that createLink_dup [of a b s] createLink_dup [of b a s]
    by (simp add: connects_sym [of b a])
  have r: "length (filter (connects a b) (links (workspace (run_ops ops initial_app)))) \<le> 1"
    by (rule run_ops_links_count)
       (simp add: initial_app_def initial_workspace_def)
  show ?thesis using createLink_self d both_directions_one_link r by blast
qed

text \<open>
  C10. createLink performs no existence check on its endpoints: it returns null exactly
  when a = b or a link between a and b exists in either direction; otherwise it appends
  the new link and returns it. The notes of the workspace play no part: with any other
  note list (the empty one too) the call returns the same result.
\<close>

theorem createLink_no_existence_check:
  "(fst (createLink a b s) = None \<longleftrightarrow>
      a = b \<or> list_ex (connects a b) (links (workspace s)))
   \<and> (a \<noteq> b \<and> \<not> list_ex (connects a b) (links (workspace s)) \<longrightarrow>
        fst (createLink a b s) =
          Some \<lparr>link_id = ''link_'' @ string_of_nat (linkCounter s + 1),
                link_from = a, link_to = b\<rparr>
        \<and> links (workspace (snd (createLink a b s))) = links (workspace s) @
            [\<lparr>link_id = ''link_'' @ string_of_nat (linkCounter s + 1),
              link_from = a, link_to = b\<rparr>])
   \<and> createLink a b (s\<lparr>workspace := (workspace s)\<lparr>ws_notes := ns\<rparr>\<rparr>) =
       (fst (createLink a b s),
        (snd (createLink a b s))\<lparr>workspace :=
           (workspace (snd (createLink a b s)))\<lparr>ws_notes := ns\<rparr>\<rparr>)"
proof -
  let ?dup = "list_ex (connects a b) (links (workspace s))"
  let ?l = "\<lparr>link_id = ''link_'' @ string_of_nat (linkCounter s + 1),
             link_from = a, link_to = b\<rparr>"
  have null_iff: "fst (createLink a b s) = None \<longleftrightarrow> a = b \<or> ?dup"
  proof (cases "a = b")
    case True
    then show ?thesis by (simp add: createLink_self)
  next
    case ne: False
    show ?thesis
    proof (cases ?dup)
      case True
      then show ?thesis by (simp add: createLink_dup)
    next
      case False
      with ne show ?thesis by (simp add: createLink_new)
    qed
  qed
  have appended: "a \<noteq> b \<and> \<not> ?dup \<longrightarrow>
      fst (createLink a b s) = Some ?l
      \<and> links (workspace (snd (createLink a b s))) = links (workspace s) @ [?l]"
    by (simp add: createLink_new)
  have notes_unread:
    "createLink a b (s\<lparr>workspace := (workspace s)\<lparr>ws_notes := ns\<rparr>\<rparr>) =
       (fst (createLink a b s),
        (snd (createLink a b s))\<lparr>workspace :=
           (workspace (snd (createLink a b s)))\<lparr>ws_notes := ns\<rparr>\<rparr>)"
    by (simp add: createLink_def Let_def)
  show ?thesis by (rule conjI [OF null_iff conjI [OF appended notes_unread]])
qed


theorem createLink_rejects_self_and_duplicates_witness:
  "''note_1'' \<noteq> ''note_2''
   \<and> length (filter (connects ''note_1'' ''note_2'') (links (workspace initial_app))) \<le> 1
   \<and> fst (createLink ''note_2'' ''note_1'' (snd (createLink ''note_1'' ''note_2'' initial_app)))
       = None
   \<and> length (filter (connects ''note_1'' ''note_2'')
        (links (workspace (snd (createLink ''note_2'' ''note_1''
           (snd (createLink ''note_1'' ''note_2'' initial_app))))))) = 1
   \<and> list_ex (connects ''note_1'' ''note_2'')
        (links (workspace (snd (createLink ''note_1'' ''note_2'' initial_app))))
   \<and> createLink ''note_1'' ''note_2'' (snd (createLink ''note_1'' ''note_2'' initial_app))
       = (None, snd (createLink ''note_1'' ''note_2'' initial_app))
   \<and> createLink ''note_2'' ''note_1'' (snd (createLink ''note_1'' ''note_2'' initial_app))
       = (None, snd (createLink ''note_1'' ''note_2'' initial_app))"
proof -
  let ?s1 = "snd (createLink ''note_1'' ''note_2'' initial_app)"
  have h1: "''note_1'' \<noteq> ''note_2''" by simp
  have h2: "length (filter (connects ''note_1'' ''note_2'') (links (workspace initial_app))) \<le> 1"
    by (simp add: initial_app_def initial_workspace_def)
  have h3: "list_ex (connects ''note_1'' ''note_2'') (links (workspace ?s1))"
    by (simp add: createLink_def initial_app_def initial_workspace_def connects_def Let_def)
  from createLink_rejects_self_and_duplicates [of "''note_1''" initial_app "''note_2''" "[]"]
       createLink_rejects_self_and_duplicates [of "''note_1''" ?s1 "''note_2''" "[]"]
       h1 h2 h3
  show ?thesis by blast
qed

theorem createLink_no_existence_check_witness:
  "ws_notes (workspace initial_app) = []
   \<and> ''ghost_a'' \<noteq> ''ghost_b''
   \<and> \<not> list_ex (connects ''ghost_a'' ''ghost_b'') (links (workspace initial_app))
   \<and> fst (createLink ''ghost_a'' ''ghost_b'' initial_app)
       = Some \<lparr>link_id = ''link_1'', link_from = ''ghost_a'', link_to = ''ghost_b''\<rparr>
   \<and> links (workspace (snd (createLink ''ghost_a'' ''ghost_b'' initial_app)))
       = [\<lparr>link_id = ''link_1'', link_from = ''ghost_a'', link_to = ''ghost_b''\<rparr>]"
proof -
  have h0: "ws_notes (workspace initial_app) = []"
    by (simp add: initial_app_def initial_workspace_def)
  have h1: "''ghost_a'' \<noteq> ''ghost_b''" by simp
  have h2: "\<not> list_ex (connects ''ghost_a'' ''ghost_b'') (links (workspace initial_app))"
    by (simp add: initial_app_def initial_workspace_def)
  have h3: "''link_'' @ string_of_nat (linkCounter initial_app + 1) = ''link_1''"
    by (simp add: initial_app_def string_of_nat.simps digit_char_def)
  have h4: "links (workspace initial_app) = []"
    by (simp add: initial_app_def initial_workspace_def)
  from createLink_no_existence_check [of "''ghost_a''" "''ghost_b''" initial_app "[]"]
       h1 h2
  have "fst (createLink ''ghost_a'' ''ghost_b'' initial_app) =
          Some \<lparr>link_id = ''link_'' @ string_of_nat (linkCounter initial_app + 1),
                link_from = ''ghost_a'', link_to = ''ghost_b''\<rparr>
        \<and> links (workspace (snd (createLink ''ghost_a'' ''ghost_b'' initial_app))) =
            links (workspace initial_app) @
            [\<lparr>link_id = ''link_'' @ string_of_nat (linkCounter initial_app + 1),
              link_from = ''ghost_a'', link_to = ''ghost_b''\<rparr>]"
    by blast
  then show ?thesis unfolding h3 h4 using h0 h1 h2 by simp
qed

lemma ws_notes_deleteNote:
  "ws_notes (workspace (deleteNote i s)) = filter (\<lambda>n. note_id n \<noteq> i) (ws_notes (workspace s))"
  by (simp add: deleteNote_def deleteLinksForNote_def Let_def)

lemma selected_deleteNote:
  "selectedNoteIds (selection (deleteNote i s))
     = filter (\<lambda>sid. sid \<noteq> i) (selectedNoteIds (selection s))"
  by (simp add: deleteNote_def deleteLinksForNote_def Let_def)

lemma links_fold_deleteNote_subset:
  "set (links (workspace (fold deleteNote ids s))) \<subseteq> set (links (workspace s))"
proof (induction ids arbitrary: s)
  case Nil
  show ?case by simp
next
  case (Cons i ids)
  have "set (links (workspace (fold deleteNote ids (deleteNote i s))))
          \<subseteq> set (links (workspace (deleteNote i s)))"
    by (rule Cons.IH)
  also have "\<dots> \<subseteq> set (links (workspace s))"
    by (simp add: links_deleteNote)
  finally show ?case by simp
qed

lemma exec_no_self_links:
  assumes "\<forall>l \<in> set (links (workspace s)). link_from l \<noteq> link_to l"
  shows "\<forall>l \<in> set (links (workspace (exec e s))). link_from l \<noteq> link_to l"
proof (cases e)
  case (CreateLink a b)
  then show ?thesis using assms by (auto simp: createLink_def Let_def)
next
  case (DeleteNote i)
  then show ?thesis using assms by (simp add: links_deleteNote)
next
  case DeleteSelectedNotes
  then show ?thesis
    using assms links_fold_deleteNote_subset [of "selectedNoteIds (selection s)" s]
    by (auto simp: deleteSelectedNotes_def Let_def)
next
  case (DeleteLink i)
  then show ?thesis using assms by (simp add: deleteLink_def)
next
  case (DeleteLinksForNote i)
  then show ?thesis using assms by (simp add: deleteLinksForNote_def)
qed (use assms in \<open>simp_all add: moveSelectedNotes_def\<close>)

lemma run_ops_no_self_links:
  "\<forall>l \<in> set (links (workspace s)). link_from l \<noteq> link_to l \<Longrightarrow>
   \<forall>l \<in> set (links (workspace (run_ops ops s))). link_from l \<noteq> link_to l"
  unfolding run_ops_def
proof (induction ops arbitrary: s)
  case Nil
  then show ?case by simp
next
  case (Cons e ops)
  from Cons.IH [OF exec_no_self_links [OF Cons.prems, of e]] show ?case by simp
qed

text \<open>
  C4. Cascading delete: in a workspace with notes A and B and a link whose endpoints are
  A.id and B.id, deleteNote(A.id) removes A (every note of that id) from workspace.notes,
  removes every link with A.id as an endpoint (that link among them, so B has no link left
  if it was B's only one), removes A.id from selection.selectedNoteIds, and keeps B in
  workspace.notes as it was. This holds in every workspace reached from the initial one
  by the operations of the models, where no link joins an id to itself, and in any
  workspace at all when A and B have different ids.
\<close>

theorem deleteNote_cascades:
  assumes A: "A \<in> set (ws_notes (workspace s))"
    and B: "B \<in> set (ws_notes (workspace s))"
    and l: "l \<in> set (links (workspace s))"
    and ends: "connects (note_id A) (note_id B) l"
    and two: "s = run_ops ops initial_app \<or> note_id A \<noteq> note_id B"
  shows "A \<notin> set (ws_notes (workspace (deleteNote (note_id A) s)))
       \<and> note_id A \<notin> set (note_ids (deleteNote (note_id A) s))
       \<and> ws_notes (workspace (deleteNote (note_id A) s))
           = filter (\<lambda>n. note_id n \<noteq> note_id A) (ws_notes (workspace s))
       \<and> links (workspace (deleteNote (note_id A) s))
           = filter (\<lambda>k. link_from k \<noteq> note_id A \<and> link_to k \<noteq> note_id A)
               (links (workspace s))
       \<and> l \<notin> set (links (workspace (deleteNote (note_id A) s)))
       \<and> getLinksForNote (note_id A) (deleteNote (note_id A) s) = []
       \<and> note_id A \<notin> set (selectedNoteIds (selection (deleteNote (note_id A) s)))
       \<and> B \<in> set (ws_notes (workspace (deleteNote (note_id A) s)))
       \<and> (getLinksForNote (note_id B) s = [l] \<longrightarrow>
            getLinksForNote (note_id B) (deleteNote (note_id A) s) = [])"
proof -
  have ne: "note_id A \<noteq> note_id B"
  proof (cases "note_id A \<noteq> note_id B")
    case True
    then show ?thesis .
  next
    case False
    with two have "s = run_ops ops initial_app" by simp
    moreover have "\<forall>k \<in> set (links (workspace initial_app)). link_from k \<noteq> link_to k"
      by (simp add: initial_app_def initial_workspace_def)
    ultimately have "link_from l \<noteq> link_to l"
      using run_ops_no_self_links [of initial_app ops] l by blast
    with ends show ?thesis by (auto simp: connects_def)
  qed
  let ?s = "deleteNote (note_id A) s"
  let ?keep = "\<lambda>k. link_from k \<noteq> note_id A \<and> link_to k \<noteq> note_id A"
  have nts: "ws_notes (workspace ?s)
                 = filter (\<lambda>n. note_id n \<noteq> note_id A) (ws_notes (workspace s))"
    by (rule ws_notes_deleteNote)
  have lnk: "links (workspace ?s) = filter ?keep (links (workspace s))"
    by (rule links_deleteNote)
  have 1: "A \<notin> set (ws_notes (workspace ?s))" by (simp add: nts)
  have 2: "note_id A \<notin> set (note_ids ?s)" by (auto simp: note_ids_def nts)
  have nk: "\<not> ?keep l" using ends by (auto simp: connects_def)
  then have 3: "l \<notin> set (links (workspace ?s))" by (simp add: lnk)
  have 4: "getLinksForNote (note_id A) ?s = []"
    by (auto simp: getLinksForNote_def lnk filter_empty_conv)
  have 5: "note_id A \<notin> set (selectedNoteIds (selection ?s))"
    by (simp add: selected_deleteNote)
  have 6: "B \<in> set (ws_notes (workspace ?s))" using B ne by (simp add: nts)
  have 7: "getLinksForNote (note_id B) ?s = []" if only: "getLinksForNote (note_id B) s = [l]"
  proof -
    have "getLinksForNote (note_id B) ?s
            = filter ?keep (getLinksForNote (note_id B) s)"
      by (simp add: getLinksForNote_def lnk conj_commute)
    then show ?thesis using nk by (simp add: only)
  qed
  from 1 2 nts lnk 3 4 5 6 7 show ?thesis by blast
qed

theorem deleteNote_cascades_witness:
  "deleteNote ''note_1''
     \<lparr>workspace = \<lparr>ws_notes =
         [\<lparr>note_id = ''note_1'', note_x = 300, note_y = 240, note_width = 200,
           note_height = 120, note_text = ''A'', note_selected = True,
           note_color = ''#8b5cf6''\<rparr>,
          \<lparr>note_id = ''note_2'', note_x = 650, note_y = 190, note_width = 200,
           note_height = 120, note_text = ''B'', note_selected = False,
           note_color = ''#ec4899''\<rparr>],
        links = [\<lparr>link_id = ''link_1'', link_from = ''note_1'', link_to = ''note_2''\<rparr>],
        zoom = 1, offsetX = 0, offsetY = 0\<rparr>,
      selection = \<lparr>selectedNoteIds = [''note_1''], linkSourceId = None\<rparr>,
      noteCounter = 2, linkCounter = 1\<rparr>
   = \<lparr>workspace = \<lparr>ws_notes =
         [\<lparr>note_id = ''note_2'', note_x = 650, note_y = 190, note_width = 200,
           note_height = 120, note_text = ''B'', note_selected = False,
           note_color = ''#ec4899''\<rparr>],
        links = [], zoom = 1, offsetX = 0, offsetY = 0\<rparr>,
      selection = \<lparr>selectedNoteIds = [], linkSourceId = None\<rparr>,
      noteCounter = 2, linkCounter = 1\<rparr>"
proof -
  let ?A = "\<lparr>note_id = ''note_1'', note_x = 300, note_y = 240, note_width = 200,
           note_height = 120, note_text = ''A'', note_selected = True,
           note_color = ''#8b5cf6''\<rparr>"
  let ?B = "\<lparr>note_id = ''note_2'', note_x = 650, note_y = 190, note_width = 200,
           note_height = 120, note_text = ''B'', note_selected = False,
           note_color = ''#ec4899''\<rparr>"
  let ?l = "\<lparr>link_id = ''link_1'', link_from = ''note_1'', link_to = ''note_2''\<rparr>"
  let ?s = "\<lparr>workspace = \<lparr>ws_notes = [?A, ?B], links = [?l],
        zoom = 1, offsetX = 0, offsetY = 0\<rparr>,
      selection = \<lparr>selectedNoteIds = [''note_1''], linkSourceId = None\<rparr>,
      noteCounter = 2, linkCounter = 1\<rparr>"
  have h1: "?A \<in> set (ws_notes (workspace ?s))" by simp
  have h2: "?B \<in> set (ws_notes (workspace ?s))" by simp
  have h3: "?l \<in> set (links (workspace ?s))" by simp
  have h4: "connects (note_id ?A) (note_id ?B) ?l" by (simp add: connects_def)
  have h5: "?s = run_ops [] initial_app \<or> note_id ?A \<noteq> note_id ?B" by simp
  have c: "linkCounter (deleteNote ''note_1'' ?s) = 1 \<and> noteCounter (deleteNote ''note_1'' ?s) = 2
           \<and> linkSourceId (selection (deleteNote ''note_1'' ?s)) = None
           \<and> zoom (workspace (deleteNote ''note_1'' ?s)) = 1
           \<and> offsetX (workspace (deleteNote ''note_1'' ?s)) = 0
           \<and> offsetY (workspace (deleteNote ''note_1'' ?s)) = 0"
    by (simp add: deleteNote_def deleteLinksForNote_def Let_def)
  from deleteNote_cascades [OF h1 h2 h3 h4 h5]
  have "ws_notes (workspace (deleteNote ''note_1'' ?s)) = [?B]
        \<and> links (workspace (deleteNote ''note_1'' ?s)) = []
        \<and> ''note_1'' \<notin> set (selectedNoteIds (selection (deleteNote ''note_1'' ?s)))"
    by simp
  then show ?thesis
    by (simp add: deleteNote_def deleteLinksForNote_def Let_def)
qed

section \<open>Note ids and colours\<close>

lemma digit_char_inj:
  assumes "a < 10" "b < 10" "digit_char a = digit_char b"
  shows "a = b"
proof -
  have d: "distinct ''0123456789''" by simp
  have "''0123456789'' ! a = ''0123456789'' ! b"
    using assms by (simp add: digit_char_def)
  then show ?thesis
    using assms(1,2) nth_eq_iff_index_eq [OF d, of a b] by simp
qed

lemma string_of_nat_small: "n < 10 \<Longrightarrow> string_of_nat n = [digit_char n]"
  by (subst string_of_nat.simps) simp

lemma string_of_nat_big:
  "\<not> n < 10 \<Longrightarrow> string_of_nat n = string_of_nat (n div 10) @ [digit_char (n mod 10)]"
  by (subst string_of_nat.simps) simp

lemma string_of_nat_nonempty: "string_of_nat n \<noteq> []"
  by (cases "n < 10") (simp_all add: string_of_nat_small string_of_nat_big)

lemma string_of_nat_inj: "string_of_nat n = string_of_nat m \<Longrightarrow> n = m"
proof (induction n arbitrary: m rule: string_of_nat.induct)
  case (1 n)
  show ?case
  proof (cases "n < 10")
    case True
    note n = string_of_nat_small [OF True]
    show ?thesis
    proof (cases "m < 10")
      case m: True
      from "1.prems" have "digit_char n = digit_char m"
        by (simp add: n string_of_nat_small [OF m])
      then show ?thesis by (rule digit_char_inj [OF True m])
    next
      case m: False
      from "1.prems" string_of_nat_nonempty [of "m div 10"] show ?thesis
        by (simp add: n string_of_nat_big [OF m] Cons_eq_append_conv)
    qed
  next
    case False
    note n = string_of_nat_big [OF False]
    show ?thesis
    proof (cases "m < 10")
      case m: True
      from "1.prems" string_of_nat_nonempty [of "n div 10"] show ?thesis
        by (simp add: n string_of_nat_small [OF m] append_eq_Cons_conv)
    next
      case m: False
      from "1.prems" have e: "string_of_nat (n div 10) = string_of_nat (m div 10)"
        and d: "digit_char (n mod 10) = digit_char (m mod 10)"
        by (simp_all add: n string_of_nat_big [OF m])
      from "1.IH" [OF False e] have q: "n div 10 = m div 10" .
      have r: "n mod 10 = m mod 10" by (rule digit_char_inj [OF _ _ d]) simp_all
      from q r show ?thesis by (metis div_mult_mod_eq)
    qed
  qed
qed

text \<open>Only createNote moves the note counter.\<close>

lemma noteCounter_clearSelection [simp]: "noteCounter (clearSelection s) = noteCounter s"
  by (simp add: clearSelection_def)

lemma noteCounter_selectNote [simp]: "noteCounter (selectNote i add s) = noteCounter s"
  by (simp add: selectNote_def Let_def)

lemma noteCounter_deselectNote [simp]: "noteCounter (deselectNote i s) = noteCounter s"
  by (simp add: deselectNote_def)

lemma noteCounter_createNote [simp]:
  "noteCounter (snd (createNote wx wy t s)) = noteCounter s + 1"
  by (simp add: createNote_def Let_def)

lemma noteCounter_deleteNote [simp]: "noteCounter (deleteNote i s) = noteCounter s"
  by (simp add: deleteNote_def deleteLinksForNote_def Let_def)

lemma noteCounter_fold_deleteNote [simp]:
  "noteCounter (fold deleteNote ids s) = noteCounter s"
  by (induction ids arbitrary: s) simp_all

lemma noteCounter_deleteSelectedNotes [simp]:
  "noteCounter (deleteSelectedNotes s) = noteCounter s"
  by (simp add: deleteSelectedNotes_def Let_def)

lemma noteCounter_moveNote [simp]: "noteCounter (moveNote i dx dy s) = noteCounter s"
  by (simp add: moveNote_def)

lemma noteCounter_moveSelectedNotes [simp]:
  "noteCounter (fold (\<lambda>i. moveNote i dx dy) ids s) = noteCounter s"
  by (induction ids arbitrary: s) simp_all

lemma noteCounter_updateNoteText [simp]: "noteCounter (updateNoteText i t s) = noteCounter s"
  by (simp add: updateNoteText_def)

lemma noteCounter_createLink [simp]: "noteCounter (snd (createLink a b s)) = noteCounter s"
  by (simp add: createLink_def Let_def)

lemma noteCounter_deleteLink [simp]: "noteCounter (deleteLink i s) = noteCounter s"
  by (simp add: deleteLink_def)

lemma noteCounter_deleteLinksForNote [simp]:
  "noteCounter (deleteLinksForNote i s) = noteCounter s"
  by (simp add: deleteLinksForNote_def)

lemma noteCounter_exec:
  "noteCounter (exec e s) = noteCounter s + (if is_create e then 1 else 0)"
  by (cases e) (simp_all add: moveSelectedNotes_def)

lemma noteCounter_run_ops:
  "noteCounter (run_ops ops s) = noteCounter s + length (filter is_create ops)"
  unfolding run_ops_def
  by (induction ops arbitrary: s) (simp_all add: noteCounter_exec)

text \<open>
  C9 (as the code has it). The k-th note ever created (the call of createNote that comes
  after k - 1 earlier ones, whatever other operations ran in between) is assigned the id
  note_<k>, k in decimal, and the palette entry at zero-based index k mod 8: the palette
  is cycled with period 8 starting from its second entry, so the first note is violet,
  the seventh blue, the eighth indigo and the ninth violet again.
\<close>

theorem createNote_id_and_color:
  "note_id (fst (createNote wx wy txt (run_ops ops initial_app)))
     = ''note_'' @ string_of_nat (Suc (length (filter is_create ops)))
   \<and> note_color (fst (createNote wx wy txt (run_ops ops initial_app)))
     = NOTE_COLORS ! (Suc (length (filter is_create ops)) mod 8)
   \<and> NOTE_COLORS = [''#6366f1'', ''#8b5cf6'', ''#ec4899'', ''#10b981'',
                    ''#f59e0b'', ''#22d3ee'', ''#ef4444'', ''#3b82f6'']
   \<and> (string_of_nat k = string_of_nat k' \<longleftrightarrow> k = k')"
proof -
  have c: "noteCounter (run_ops ops initial_app) = length (filter is_create ops)"
    by (simp add: noteCounter_run_ops initial_app_def)
  have l: "length NOTE_COLORS = 8" by (simp add: NOTE_COLORS_def)
  show ?thesis
    using string_of_nat_inj [of k k']
    by (auto simp: createNote_def Let_def c l NOTE_COLORS_def)
qed


theorem createNote_id_and_color_witness:
  "note_id (fst (createNote 0 0 None
       (run_ops (replicate 8 (CreateNote 0 0 None)) initial_app))) = ''note_9''
   \<and> note_color (fst (createNote 0 0 None
       (run_ops (replicate 8 (CreateNote 0 0 None)) initial_app))) = ''#8b5cf6''
   \<and> note_id (fst (createNote 0 0 None
       (run_ops [CreateNote 1 1 None, SelectNote ''note_1'' False, DeleteSelectedNotes,
                 CreateNote 2 2 None, CreateNote 3 3 None, CreateNote 4 4 None,
                 CreateNote 5 5 None, CreateNote 6 6 None, CreateNote 7 7 None] initial_app)))
       = ''note_8''
   \<and> note_color (fst (createNote 0 0 None
       (run_ops [CreateNote 1 1 None, SelectNote ''note_1'' False, DeleteSelectedNotes,
                 CreateNote 2 2 None, CreateNote 3 3 None, CreateNote 4 4 None,
                 CreateNote 5 5 None, CreateNote 6 6 None, CreateNote 7 7 None] initial_app)))
       = ''#6366f1''"
proof -
  have a: "Suc (length (filter is_create (replicate 8 (CreateNote 0 0 None)))) = 9"
    by simp
  have b: "Suc (length (filter is_create
             [CreateNote 1 1 None, SelectNote ''note_1'' False, DeleteSelectedNotes,
              CreateNote 2 2 None, CreateNote 3 3 None, CreateNote 4 4 None,
              CreateNote 5 5 None, CreateNote 6 6 None, CreateNote 7 7 None])) = 8"
    by simp
  have s9: "string_of_nat 9 = ''9''" and s8: "string_of_nat 8 = ''8''"
    by (simp_all add: string_of_nat.simps digit_char_def)
  have c9: "NOTE_COLORS ! (9 mod 8) = ''#8b5cf6''" and c8: "NOTE_COLORS ! (8 mod 8) = ''#6366f1''"
    by (simp_all add: NOTE_COLORS_def)
  from createNote_id_and_color [of 0 0 None "replicate 8 (CreateNote 0 0 None)" 0 0]
       createNote_id_and_color [of 0 0 None
         "[CreateNote 1 1 None, SelectNote ''note_1'' False, DeleteSelectedNotes,
           CreateNote 2 2 None, CreateNote 3 3 None, CreateNote 4 4 None,
           CreateNote 5 5 None, CreateNote 6 6 None, CreateNote 7 7 None]" 0 0]
  show ?thesis unfolding a b s9 s8 c9 c8 by simp
qed

theorem first_note_color_counterexample:
  "note_id (fst (createNote 400 300 (Some ''Welcome to VisualNote'') initial_app)) = ''note_1''
   \<and> note_color (fst (createNote 400 300 (Some ''Welcome to VisualNote'') initial_app))
       = ''#8b5cf6''
   \<and> note_color (fst (createNote 400 300 (Some ''Welcome to VisualNote'') initial_app))
       \<noteq> ''#6366f1''"
  by (simp add: createNote_def Let_def initial_app_def NOTE_COLORS_def
        string_of_nat.simps digit_char_def)

section \<open>Selection flags\<close>

lemma note_ids_flag_pairs: "note_ids s = map fst (flag_pairs s)"
  by (simp add: note_ids_def flag_pairs_def comp_def)

lemma flags_consistent_flag_pairs:
  "flags_consistent s \<longleftrightarrow>
     (\<forall>(i, b) \<in> set (flag_pairs s). b = (i \<in> set (selectedNoteIds (selection s))))"
  by (auto simp: flags_consistent_def flag_pairs_def list_all_iff)

lemma note_inv_cong:
  assumes "flag_pairs s' = flag_pairs s"
    and "selectedNoteIds (selection s') = selectedNoteIds (selection s)"
    and "noteCounter s' = noteCounter s"
    and "note_inv s"
  shows "note_inv s'"
  using assms unfolding note_inv_def note_ids_flag_pairs flags_consistent_flag_pairs
  by simp

lemma update_first_pairs:
  assumes "\<And>n. note_id (f n) = note_id n" "\<And>n. note_selected (f n) = note_selected n"
  shows "map (\<lambda>n. (note_id n, note_selected n)) (update_first P f xs)
           = map (\<lambda>n. (note_id n, note_selected n)) xs"
  by (induction xs) (simp_all add: assms)

lemma update_first_distinct:
  "distinct (map g xs) \<Longrightarrow>
   update_first (\<lambda>n. g n = i) f xs = map (\<lambda>n. if g n = i then f n else n) xs"
proof (induction xs)
  case Nil
  show ?case by simp
next
  case (Cons v vs)
  show ?case
  proof (cases "g v = i")
    case True
    with Cons.prems have "\<forall>n \<in> set vs. g n \<noteq> i" by (auto simp: image_iff)
    then have "map (\<lambda>n. if g n = i then f n else n) vs = vs"
      by (induction vs) auto
    with True show ?thesis by simp
  next
    case False
    with Cons show ?thesis by simp
  qed
qed

lemma note_inv_moveNote: "note_inv s \<Longrightarrow> note_inv (moveNote i dx dy s)"
  by (rule note_inv_cong) (simp_all add: moveNote_def flag_pairs_def update_first_pairs)

lemma note_inv_updateNoteText: "note_inv s \<Longrightarrow> note_inv (updateNoteText i t s)"
  by (rule note_inv_cong) (simp_all add: updateNoteText_def flag_pairs_def update_first_pairs)

lemma selected_moveNote [simp]:
  "selectedNoteIds (selection (moveNote i dx dy s)) = selectedNoteIds (selection s)"
  by (simp add: moveNote_def)

lemma note_inv_fold_moveNote:
  "note_inv s \<Longrightarrow> note_inv (fold (\<lambda>i. moveNote i dx dy) ids s)"
  by (induction ids arbitrary: s) (simp_all add: note_inv_moveNote)

lemma note_inv_createLink: "note_inv s \<Longrightarrow> note_inv (snd (createLink a b s))"
  by (rule note_inv_cong) (simp_all add: createLink_def flag_pairs_def Let_def)

lemma note_inv_deleteLink: "note_inv s \<Longrightarrow> note_inv (deleteLink i s)"
  by (rule note_inv_cong) (simp_all add: deleteLink_def flag_pairs_def)

lemma note_inv_deleteLinksForNote: "note_inv s \<Longrightarrow> note_inv (deleteLinksForNote i s)"
  by (rule note_inv_cong) (simp_all add: deleteLinksForNote_def flag_pairs_def)

lemma note_inv_clearSelection: "note_inv s \<Longrightarrow> note_inv (clearSelection s)"
  by (auto simp: note_inv_def clearSelection_def flags_consistent_def note_ids_def
        list_all_iff comp_def)

lemma note_inv_selectNote:
  assumes "note_inv s" "i \<in> set (note_ids s)"
  shows "note_inv (selectNote i add s)"
proof -
  let ?s1 = "if \<not> add then clearSelection s else s"
  have inv1: "note_inv ?s1" using assms(1) by (simp add: note_inv_clearSelection)
  have ids1: "note_ids ?s1 = note_ids s"
    by (simp add: clearSelection_def note_ids_def comp_def)
  have c1: "noteCounter ?s1 = noteCounter s" by simp
  have sel: "selectNote i add s =
      (let ids = selectedNoteIds (selection ?s1);
           ids' = (if i \<notin> set ids then ids @ [i] else ids)
       in ?s1\<lparr>selection := (selection ?s1)\<lparr>selectedNoteIds := ids'\<rparr>,
              workspace := (workspace ?s1)\<lparr>ws_notes :=
                map (\<lambda>n. n\<lparr>note_selected := (note_id n \<in> set ids')\<rparr>)
                    (ws_notes (workspace ?s1))\<rparr>\<rparr>)"
    by (simp add: selectNote_def Let_def)
  from inv1 have d: "distinct (note_ids ?s1)"
    and sub: "set (selectedNoteIds (selection ?s1)) \<subseteq> set (note_ids ?s1)"
    and form: "\<forall>j \<in> set (note_ids ?s1). \<exists>k. k \<le> noteCounter ?s1 \<and> j = ''note_'' @ string_of_nat k"
    by (simp_all add: note_inv_def)
  from assms(2) ids1 have i: "i \<in> set (note_ids ?s1)" by simp
  show ?thesis
    unfolding sel using d sub form i
    by (auto simp: note_inv_def Let_def flags_consistent_def note_ids_def
          list_all_iff comp_def)
qed

lemma note_inv_deselectNote:
  assumes "note_inv s"
  shows "note_inv (deselectNote i s)"
proof -
  from assms have d: "distinct (map note_id (ws_notes (workspace s)))"
    by (simp add: note_inv_def note_ids_def)
  have upd: "update_first (\<lambda>n. note_id n = i) (\<lambda>n. n\<lparr>note_selected := False\<rparr>)
               (ws_notes (workspace s))
             = map (\<lambda>n. if note_id n = i then n\<lparr>note_selected := False\<rparr> else n)
                 (ws_notes (workspace s))"
    by (rule update_first_distinct [OF d])
  have ids: "note_id (if note_id n = i then n\<lparr>note_selected := False\<rparr> else n) = note_id n"
    for n :: note_t
    by simp
  show ?thesis
    using assms unfolding deselectNote_def upd
    by (auto simp: note_inv_def flags_consistent_def note_ids_def
          list_all_iff comp_def ids)
qed

lemma note_inv_deleteNote:
  assumes "note_inv s"
  shows "note_inv (deleteNote i s)"
proof -
  have ids: "note_ids (deleteNote i s) = filter (\<lambda>j. j \<noteq> i) (note_ids s)"
    by (simp add: note_ids_def ws_notes_deleteNote filter_map comp_def)
  show ?thesis
    using assms unfolding note_inv_def ids
    by (auto simp: flags_consistent_def ws_notes_deleteNote selected_deleteNote
          list_all_iff)
qed

lemma note_inv_fold_deleteNote: "note_inv s \<Longrightarrow> note_inv (fold deleteNote ids s)"
  by (induction ids arbitrary: s) (simp_all add: note_inv_deleteNote)

lemma note_inv_deleteSelectedNotes: "note_inv s \<Longrightarrow> note_inv (deleteSelectedNotes s)"
  by (simp add: deleteSelectedNotes_def Let_def note_inv_clearSelection note_inv_fold_deleteNote)

lemma note_inv_createNote:
  assumes "note_inv s"
  shows "note_inv (snd (createNote wx wy t s))"
proof -
  let ?new = "''note_'' @ string_of_nat (noteCounter s + 1)"
  from assms have form: "\<forall>i \<in> set (note_ids s). \<exists>k. k \<le> noteCounter s \<and> i = ''note_'' @ string_of_nat k"
    and sub: "set (selectedNoteIds (selection s)) \<subseteq> set (note_ids s)"
    by (simp_all add: note_inv_def)
  have fresh: "?new \<notin> set (note_ids s)"
  proof
    assume "?new \<in> set (note_ids s)"
    with form obtain k where k: "k \<le> noteCounter s" and e: "?new = ''note_'' @ string_of_nat k"
      by blast
    from e have "noteCounter s + 1 = k" by (simp add: string_of_nat_inj)
    with k show False by simp
  qed
  with sub have unsel: "?new \<notin> set (selectedNoteIds (selection s))" by blast
  have ids: "note_ids (snd (createNote wx wy t s)) = note_ids s @ [?new]"
    by (simp add: createNote_def Let_def note_ids_def)
  have "\<exists>k. k \<le> noteCounter s + 1 \<and> i = ''note_'' @ string_of_nat k"
    if "i \<in> set (note_ids s @ [?new])" for i
  proof (cases "i = ?new")
    case True
    then show ?thesis by auto
  next
    case False
    with that form obtain k where "k \<le> noteCounter s" "i = ''note_'' @ string_of_nat k"
      by auto
    then show ?thesis by (intro exI [of _ k]) simp
  qed
  then show ?thesis
    using assms fresh unsel unfolding note_inv_def ids
    by (auto simp: flags_consistent_def createNote_def Let_def list_all_iff)
qed

lemma note_inv_exec:
  assumes "note_inv s" "selects_existing e s"
  shows "note_inv (exec e s)"
  using assms
  by (cases e)
     (simp_all add: note_inv_createNote note_inv_deleteNote note_inv_deleteSelectedNotes
        note_inv_selectNote note_inv_deselectNote note_inv_clearSelection note_inv_moveNote
        note_inv_fold_moveNote moveSelectedNotes_def note_inv_updateNoteText note_inv_createLink
        note_inv_deleteLink note_inv_deleteLinksForNote)

lemma note_inv_run_ops:
  "note_inv s \<Longrightarrow> run_selects_existing ops s \<Longrightarrow> note_inv (run_ops ops s)"
  unfolding run_ops_def
  by (induction ops arbitrary: s) (simp_all add: note_inv_exec)

lemma note_inv_initial: "note_inv initial_app"
  by (simp add: note_inv_def initial_app_def initial_workspace_def initial_selection_def
        flags_consistent_def note_ids_def)


text \<open>
  C5 (as the code has it). At every state reached from the initial one by createNote,
  deleteNote, deleteSelectedNotes, selectNote (with or without addToSelection),
  deselectNote, clearSelection, moveNote, moveSelectedNotes, updateNoteText, createLink,
  deleteLink and deleteLinksForNote, where each selectNote call names a note that is in
  workspace.notes at that moment, every note of workspace.notes has selected = true
  exactly when its id is a member of selection.selectedNoteIds.
\<close>

theorem selected_flags_consistent:
  assumes "run_selects_existing ops initial_app"
  shows "flags_consistent (run_ops ops initial_app)
       \<and> (\<forall>n \<in> set (ws_notes (workspace (run_ops ops initial_app))).
            note_selected n
              = (note_id n \<in> set (selectedNoteIds (selection (run_ops ops initial_app)))))"
proof -
  have "note_inv (run_ops ops initial_app)"
    by (rule note_inv_run_ops [OF note_inv_initial assms])
  then have "flags_consistent (run_ops ops initial_app)" by (simp add: note_inv_def)
  then show ?thesis by (simp add: flags_consistent_def list_all_iff)
qed

lemmas op_defs =
  createNote_def deleteNote_def deleteLinksForNote_def deleteSelectedNotes_def
  selectNote_def deselectNote_def clearSelection_def moveNote_def moveSelectedNotes_def
  updateNoteText_def createLink_def deleteLink_def run_ops_def note_ids_def
  initial_app_def initial_workspace_def initial_selection_def flags_consistent_def
  NOTE_COLORS_def Let_def string_of_nat.simps digit_char_def

theorem selected_flags_consistent_witness:
  "run_selects_existing
     [CreateNote 400 300 None, SelectNote ''note_1'' False, CreateNote 750 250 None,
      SelectNote ''note_2'' True, DeselectNote ''note_1'', DeleteSelectedNotes] initial_app
   \<and> flags_consistent (run_ops
     [CreateNote 400 300 None, SelectNote ''note_1'' False, CreateNote 750 250 None,
      SelectNote ''note_2'' True, DeselectNote ''note_1'', DeleteSelectedNotes] initial_app)"
proof -
  have h: "run_selects_existing
     [CreateNote 400 300 None, SelectNote ''note_1'' False, CreateNote 750 250 None,
      SelectNote ''note_2'' True, DeselectNote ''note_1'', DeleteSelectedNotes] initial_app"
    by (simp add: op_defs)
  from selected_flags_consistent [OF h] h show ?thesis by blast
qed

theorem selected_flags_counterexample:
  "\<not> flags_consistent (run_ops [SelectNote ''note_1'' False, CreateNote 400 300 None] initial_app)
   \<and> note_ids (run_ops [SelectNote ''note_1'' False, CreateNote 400 300 None] initial_app)
       = [''note_1'']
   \<and> map note_selected (ws_notes (workspace
         (run_ops [SelectNote ''note_1'' False, CreateNote 400 300 None] initial_app))) = [False]
   \<and> selectedNoteIds (selection
         (run_ops [SelectNote ''note_1'' False, CreateNote 400 300 None] initial_app))
       = [''note_1'']"
  by (simp add: op_defs)

section \<open>Project export\<close>

text \<open>
  C7. For every workspace (one with no notes too), exportProjectJSON returns true, and the
  project it builds for serialisation has version "1.0", a workspace record with the
  current zoom, offsetX and offsetY, a notes array with one record per note of
  workspace.notes, in order, each with exactly the fields id, x, y, width, height, text
  and color (no selected field), and a links array with one record of the fields id, from
  and to per link.
\<close>

theorem exportProjectJSON_shape:
  "returned (exportProjectJSON w isoTime stamp) = True
   \<and> json_keys (project (exportProjectJSON w isoTime stamp))
       = [''version'', ''timestamp'', ''workspace'', ''notes'', ''links'']
   \<and> json_get ''version'' (project (exportProjectJSON w isoTime stamp)) = Some (JStr ''1.0'')
   \<and> json_get ''workspace'' (project (exportProjectJSON w isoTime stamp))
       = Some (JObj [(''zoom'', JNum (zoom w)), (''offsetX'', JNum (offsetX w)),
                     (''offsetY'', JNum (offsetY w))])
   \<and> json_get ''notes'' (project (exportProjectJSON w isoTime stamp))
       = Some (JArr (map note_record (ws_notes w)))
   \<and> length (map note_record (ws_notes w)) = length (ws_notes w)
   \<and> note_record n
       = JObj [(''id'', JStr (note_id n)), (''x'', JNum (note_x n)), (''y'', JNum (note_y n)),
               (''width'', JNum (note_width n)), (''height'', JNum (note_height n)),
               (''text'', JStr (note_text n)), (''color'', JStr (note_color n))]
   \<and> json_keys (note_record n) = [''id'', ''x'', ''y'', ''width'', ''height'', ''text'', ''color'']
   \<and> json_get ''selected'' (note_record n) = None
   \<and> json_get ''links'' (project (exportProjectJSON w isoTime stamp))
       = Some (JArr (map link_record (links w)))
   \<and> length (map link_record (links w)) = length (links w)
   \<and> link_record l
       = JObj [(''id'', JStr (link_id l)), (''from'', JStr (link_from l)),
               (''to'', JStr (link_to l))]"
proof -
  let ?p = "project (exportProjectJSON w isoTime stamp)"
  have doc: "?p = JObj [(''version'', JStr ''1.0''),
                        (''timestamp'', JStr isoTime),
                        (''workspace'', JObj [(''zoom'', JNum (zoom w)),
                                             (''offsetX'', JNum (offsetX w)),
                                             (''offsetY'', JNum (offsetY w))]),
                        (''notes'', JArr (map note_record (ws_notes w))),
                        (''links'', JArr (map link_record (links w)))]"
    by (simp add: exportProjectJSON_def Let_def PROJECT_VERSION_def)
  have ok: "returned (exportProjectJSON w isoTime stamp) = True"
    by (simp add: exportProjectJSON_def Let_def)
  have note_fields: "json_keys (note_record n)
      = [''id'', ''x'', ''y'', ''width'', ''height'', ''text'', ''color'']"
    and no_selected: "json_get ''selected'' (note_record n) = None"
    by (simp_all add: note_record_def)
  show ?thesis
    unfolding doc using ok note_fields no_selected
    by (simp add: note_record_def link_record_def)
qed

theorem exportProjectJSON_shape_witness:
  "returned (exportProjectJSON initial_workspace ''2026-01-01T00:00:00.000Z'' ''20260101_000000'')
   \<and> json_get ''version''
        (project (exportProjectJSON initial_workspace ''2026-01-01T00:00:00.000Z''
           ''20260101_000000'')) = Some (JStr ''1.0'')
   \<and> json_get ''notes''
        (project (exportProjectJSON initial_workspace ''2026-01-01T00:00:00.000Z''
           ''20260101_000000'')) = Some (JArr [])
   \<and> json_get ''links''
        (project (exportProjectJSON initial_workspace ''2026-01-01T00:00:00.000Z''
           ''20260101_000000'')) = Some (JArr [])"
  using exportProjectJSON_shape [of initial_workspace "''2026-01-01T00:00:00.000Z''"
      "''20260101_000000''"]
  by (simp add: initial_workspace_def)

section \<open>Hands that are not detected\<close>

text \<open>
  C8 (as the code has it). In a frame in which a hand role is given no landmark list, or
  fewer than 21 landmarks, processOneHand resets these fields of the role's state:
  detected to false, landmarks to absent, isPinching, pinchConfirmed, pinchJustConfirmed
  and pinchJustReleased to false, gestureMode, prevGestureMode and gestureCandidate to
  'none', and the candidate frame count to 0. It leaves pinchStartTime, cursor,
  smoothCursor and prevSmoothCursor as they were before the frame.
\<close>

theorem processOneHand_undetected:
  assumes "case lms of None \<Rightarrow> True | Some lm \<Rightarrow> length lm < 21"
  shows "processOneHand h lms canvasWidth canvasHeight now1 now2
           = h\<lparr>detected := False, landmarks := None, isPinching := False,
               pinchConfirmed := False, pinchJustConfirmed := False,
               pinchJustReleased := False, gestureMode := GNone, prevGestureMode := GNone,
               gestureCandidate := GNone, gestureCandidateFrames := 0\<rparr>
       \<and> pinchStartTime (processOneHand h lms canvasWidth canvasHeight now1 now2)
           = pinchStartTime h
       \<and> cursor (processOneHand h lms canvasWidth canvasHeight now1 now2) = cursor h
       \<and> smoothCursor (processOneHand h lms canvasWidth canvasHeight now1 now2)
           = smoothCursor h
       \<and> prevSmoothCursor (processOneHand h lms canvasWidth canvasHeight now1 now2)
           = prevSmoothCursor h"
proof -
  have reset: "processOneHand h lms canvasWidth canvasHeight now1 now2 = resetOneHand h"
  proof (cases lms)
    case None
    then show ?thesis by (simp add: processOneHand_def)
  next
    case (Some lm)
    with assms have "length lm < 21" by simp
    with Some show ?thesis by (simp add: processOneHand_def)
  qed
  show ?thesis unfolding reset by (simp add: resetOneHand_def)
qed

lemma pinched_hand:
  "processOneHand createHandState (Some (replicate 21 \<lparr>px = 1 / 2, py = 1 / 2\<rparr>))
     100 100 5 5
   = \<lparr>detected = True,
      landmarks = Some (replicate 21 \<lparr>px = 1 / 2, py = 1 / 2\<rparr>),
      cursor = \<lparr>px = 50, py = 50\<rparr>,
      smoothCursor = \<lparr>px = 20, py = 20\<rparr>,
      prevSmoothCursor = \<lparr>px = 0, py = 0\<rparr>,
      isPinching = True,
      pinchStartTime = 5,
      pinchConfirmed = False,
      pinchJustConfirmed = False,
      pinchJustReleased = False,
      gestureMode = GNone,
      prevGestureMode = GNone,
      gestureCandidate = GPinch,
      gestureCandidateFrames = 1\<rparr>"
  by (simp add: processOneHand_def createHandState_def updateCursor_def updateGesture_def
        pinchStateMachine_def classifyGesture_def dist_pt_def smooth_def Let_def
        THUMB_TIP_def INDEX_TIP_def PINCH_THRESHOLD_def RELEASE_THRESHOLD_def
        PINCH_DEBOUNCE_MS_def SMOOTHING_FACTOR_def GESTURE_CONFIRM_FRAMES_def)

theorem processOneHand_undetected_witness:
  "processOneHand
     (processOneHand createHandState (Some (replicate 21 \<lparr>px = 1 / 2, py = 1 / 2\<rparr>))
        100 100 5 5)
     (Some (replicate 20 \<lparr>px = 1 / 2, py = 1 / 2\<rparr>)) 100 100 40 40
   = \<lparr>detected = False,
      landmarks = None,
      cursor = \<lparr>px = 50, py = 50\<rparr>,
      smoothCursor = \<lparr>px = 20, py = 20\<rparr>,
      prevSmoothCursor = \<lparr>px = 0, py = 0\<rparr>,
      isPinching = False,
      pinchStartTime = 5,
      pinchConfirmed = False,
      pinchJustConfirmed = False,
      pinchJustReleased = False,
      gestureMode = GNone,
      prevGestureMode = GNone,
      gestureCandidate = GNone,
      gestureCandidateFrames = 0\<rparr>"
proof -
  have h: "case Some (replicate 20 \<lparr>px = 1 / 2, py = 1 / 2\<rparr>) of
             None \<Rightarrow> True | Some lm \<Rightarrow> length lm < 21"
    by simp
  from processOneHand_undetected [OF h] show ?thesis
    unfolding pinched_hand by simp
qed

theorem reset_keeps_cursor_counterexample:
  "cursor (processOneHand
     (processOneHand createHandState (Some (replicate 21 \<lparr>px = 1 / 2, py = 1 / 2\<rparr>))
        100 100 5 5)
     None 100 100 40 40) = \<lparr>px = 50, py = 50\<rparr>
   \<and> smoothCursor (processOneHand
     (processOneHand createHandState (Some (replicate 21 \<lparr>px = 1 / 2, py = 1 / 2\<rparr>))
        100 100 5 5)
     None 100 100 40 40) = \<lparr>px = 20, py = 20\<rparr>
   \<and> pinchStartTime (processOneHand
     (processOneHand createHandState (Some (replicate 21 \<lparr>px = 1 / 2, py = 1 / 2\<rparr>))
        100 100 5 5)
     None 100 100 40 40) = 5
   \<and> processOneHand
     (processOneHand createHandState (Some (replicate 21 \<lparr>px = 1 / 2, py = 1 / 2\<rparr>))
        100 100 5 5)
     None 100 100 40 40 \<noteq> createHandState
   \<and> cursor createHandState = \<lparr>px = 0, py = 0\<rparr>
   \<and> smoothCursor createHandState = \<lparr>px = 0, py = 0\<rparr>
   \<and> pinchStartTime createHandState = 0"
  unfolding pinched_hand
  by (simp add: processOneHand_def resetOneHand_def createHandState_def)

section \<open>Pinch debounce and hysteresis\<close>

lemma psm_engage:
  assumes "\<not> isPinching h" "d < PINCH_THRESHOLD"
  shows "isPinching (pinchStateMachine d t1 t2 h)"
    and "pinchStartTime (pinchStateMachine d t1 t2 h) = t1"
    and "pinchConfirmed (pinchStateMachine d t1 t2 h) = (t2 - t1 \<ge> PINCH_DEBOUNCE_MS)"
    and "pinchJustConfirmed (pinchStateMachine d t1 t2 h) = (t2 - t1 \<ge> PINCH_DEBOUNCE_MS)"
  using assms by (simp_all add: pinchStateMachine_def Let_def)

lemma psm_hold:
  assumes "isPinching h" "\<not> d > RELEASE_THRESHOLD"
  shows "isPinching (pinchStateMachine d t1 t2 h)"
    and "pinchStartTime (pinchStateMachine d t1 t2 h) = pinchStartTime h"
    and "pinchConfirmed (pinchStateMachine d t1 t2 h)
           = (pinchConfirmed h \<or> t2 - pinchStartTime h \<ge> PINCH_DEBOUNCE_MS)"
    and "pinchJustConfirmed (pinchStateMachine d t1 t2 h)
           = (\<not> pinchConfirmed h \<and> t2 - pinchStartTime h \<ge> PINCH_DEBOUNCE_MS)"
  using assms by (auto simp: pinchStateMachine_def Let_def)

lemma psm_release:
  assumes "isPinching h" "d > RELEASE_THRESHOLD"
  shows "\<not> isPinching (pinchStateMachine d t1 t2 h)"
    and "\<not> pinchConfirmed (pinchStateMachine d t1 t2 h)"
    and "\<not> pinchJustConfirmed (pinchStateMachine d t1 t2 h)"
    and "pinchJustReleased (pinchStateMachine d t1 t2 h) = pinchConfirmed h"
  using assms by (auto simp: pinchStateMachine_def Let_def)

lemma pinch_fields_updateCursor [simp]:
  "isPinching (updateCursor lm cw ch h) = isPinching h"
  "pinchStartTime (updateCursor lm cw ch h) = pinchStartTime h"
  "pinchConfirmed (updateCursor lm cw ch h) = pinchConfirmed h"
  by (simp_all add: updateCursor_def Let_def)

lemma pinch_fields_updateGesture [simp]:
  "isPinching (updateGesture lm h) = isPinching h"
  "pinchStartTime (updateGesture lm h) = pinchStartTime h"
  "pinchConfirmed (updateGesture lm h) = pinchConfirmed h"
  by (simp_all add: updateGesture_def Let_def)

lemma process_frame_detected:
  assumes "frame_dist f = Some d"
  obtains h' where "process_frame h f = pinchStateMachine d (frame_now1 f) (frame_now2 f) h'"
    and "isPinching h' = isPinching h"
    and "pinchStartTime h' = pinchStartTime h"
    and "pinchConfirmed h' = pinchConfirmed h"
proof -
  from assms obtain lm where lm: "frame_landmarks f = Some lm" "\<not> length lm < 21"
    and d: "d = dist_pt (lm ! THUMB_TIP) (lm ! INDEX_TIP)"
    by (auto simp: frame_dist_def split: option.splits if_splits)
  let ?h = "updateGesture lm (updateCursor lm (frame_width f) (frame_height f)
              (h\<lparr>detected := True, landmarks := Some lm\<rparr>))"
  have "process_frame h f = pinchStateMachine d (frame_now1 f) (frame_now2 f) ?h"
    using lm d by (simp add: process_frame_def processOneHand_def Let_def)
  moreover have "isPinching ?h = isPinching h" "pinchStartTime ?h = pinchStartTime h"
    "pinchConfirmed ?h = pinchConfirmed h"
    by simp_all
  ultimately show ?thesis by (rule that)
qed

lemma frame_engage:
  assumes "\<not> isPinching h" "engages f"
  shows "isPinching (process_frame h f)"
    and "pinchStartTime (process_frame h f) = frame_now1 f"
    and "pinchConfirmed (process_frame h f) = (elapsed_since f f \<ge> PINCH_DEBOUNCE_MS)"
    and "pinchJustConfirmed (process_frame h f) = (elapsed_since f f \<ge> PINCH_DEBOUNCE_MS)"
proof -
  from assms(2) obtain d where d: "frame_dist f = Some d" "d < PINCH_THRESHOLD"
    by (auto simp: engages_def split: option.splits)
  from process_frame_detected [OF d(1), of h] obtain h'
    where e: "process_frame h f = pinchStateMachine d (frame_now1 f) (frame_now2 f) h'"
      and p: "isPinching h' = isPinching h"
    by blast
  from p assms(1) have np: "\<not> isPinching h'" by simp
  show "isPinching (process_frame h f)"
    and "pinchStartTime (process_frame h f) = frame_now1 f"
    and "pinchConfirmed (process_frame h f) = (elapsed_since f f \<ge> PINCH_DEBOUNCE_MS)"
    and "pinchJustConfirmed (process_frame h f) = (elapsed_since f f \<ge> PINCH_DEBOUNCE_MS)"
    unfolding e elapsed_since_def by (simp_all add: psm_engage [OF np d(2)])
qed

lemma frame_hold:
  assumes "isPinching h" "holds f"
  shows "isPinching (process_frame h f)"
    and "pinchStartTime (process_frame h f) = pinchStartTime h"
    and "pinchConfirmed (process_frame h f)
           = (pinchConfirmed h \<or> frame_now2 f - pinchStartTime h \<ge> PINCH_DEBOUNCE_MS)"
    and "pinchJustConfirmed (process_frame h f)
           = (\<not> pinchConfirmed h \<and> frame_now2 f - pinchStartTime h \<ge> PINCH_DEBOUNCE_MS)"
proof -
  from assms(2) obtain d where d: "frame_dist f = Some d" "\<not> d > RELEASE_THRESHOLD"
    by (auto simp: holds_def split: option.splits)
  from process_frame_detected [OF d(1), of h] obtain h'
    where e: "process_frame h f = pinchStateMachine d (frame_now1 f) (frame_now2 f) h'"
      and p: "isPinching h' = isPinching h" "pinchStartTime h' = pinchStartTime h"
        "pinchConfirmed h' = pinchConfirmed h"
    by blast
  from p assms(1) have ip: "isPinching h'" by simp
  show "isPinching (process_frame h f)"
    and "pinchStartTime (process_frame h f) = pinchStartTime h"
    and "pinchConfirmed (process_frame h f)
           = (pinchConfirmed h \<or> frame_now2 f - pinchStartTime h \<ge> PINCH_DEBOUNCE_MS)"
    and "pinchJustConfirmed (process_frame h f)
           = (\<not> pinchConfirmed h \<and> frame_now2 f - pinchStartTime h \<ge> PINCH_DEBOUNCE_MS)"
    unfolding e by (simp_all add: psm_hold [OF ip d(2)] p)
qed

lemma frame_release:
  assumes "isPinching h" "releases f"
  shows "\<not> isPinching (process_frame h f)"
    and "\<not> pinchConfirmed (process_frame h f)"
    and "\<not> pinchJustConfirmed (process_frame h f)"
    and "pinchJustReleased (process_frame h f) = pinchConfirmed h"
proof -
  from assms(2) obtain d where d: "frame_dist f = Some d" "d > RELEASE_THRESHOLD"
    by (auto simp: releases_def split: option.splits)
  from process_frame_detected [OF d(1), of h] obtain h'
    where e: "process_frame h f = pinchStateMachine d (frame_now1 f) (frame_now2 f) h'"
      and p: "isPinching h' = isPinching h" "pinchConfirmed h' = pinchConfirmed h"
    by blast
  from p assms(1) have ip: "isPinching h'" by simp
  show "\<not> isPinching (process_frame h f)"
    and "\<not> pinchConfirmed (process_frame h f)"
    and "\<not> pinchJustConfirmed (process_frame h f)"
    and "pinchJustReleased (process_frame h f) = pinchConfirmed h"
    unfolding e by (simp_all add: psm_release [OF ip d(2)] p)
qed

lemma ex_le_Cons: "(\<exists>j\<le>Suc k. P ((f # fs) ! j)) \<longleftrightarrow> P f \<or> (\<exists>j\<le>k. P (fs ! j))"
proof
  assume "\<exists>j\<le>Suc k. P ((f # fs) ! j)"
  then obtain j where j: "j \<le> Suc k" "P ((f # fs) ! j)" by blast
  show "P f \<or> (\<exists>j\<le>k. P (fs ! j))"
  proof (cases j)
    case 0
    with j show ?thesis by simp
  next
    case (Suc i)
    with j have "i \<le> k" "P (fs ! i)" by simp_all
    then show ?thesis by blast
  qed
next
  assume "P f \<or> (\<exists>j\<le>k. P (fs ! j))"
  then show "\<exists>j\<le>Suc k. P ((f # fs) ! j)"
  proof
    assume "P f"
    then have "0 \<le> Suc k \<and> P ((f # fs) ! 0)" by simp
    then show ?thesis by blast
  next
    assume "\<exists>j\<le>k. P (fs ! j)"
    then obtain j where "j \<le> k" "P (fs ! j)" by blast
    then have "Suc j \<le> Suc k \<and> P ((f # fs) ! Suc j)" by simp
    then show ?thesis by blast
  qed
qed

lemma all_less_Cons: "(\<forall>j<Suc k. P ((f # fs) ! j)) \<longleftrightarrow> P f \<and> (\<forall>j<k. P (fs ! j))"
proof
  assume a: "\<forall>j<Suc k. P ((f # fs) ! j)"
  then have "P ((f # fs) ! 0)" by blast
  moreover have "P (fs ! j)" if "j < k" for j
    using a that by (auto dest: spec [of _ "Suc j"])
  ultimately show "P f \<and> (\<forall>j<k. P (fs ! j))" by simp
next
  assume a: "P f \<and> (\<forall>j<k. P (fs ! j))"
  show "\<forall>j<Suc k. P ((f # fs) ! j)"
  proof (intro allI impI)
    fix j assume "j < Suc k"
    with a show "P ((f # fs) ! j)" by (cases j) simp_all
  qed
qed

text \<open>A pinch that is held: no frame releases it.\<close>

lemma held_run:
  assumes "isPinching h" "list_all holds fs" "k < length fs"
  shows "isPinching (run_frames h fs ! k)"
    and "pinchStartTime (run_frames h fs ! k) = pinchStartTime h"
    and "pinchConfirmed (run_frames h fs ! k)
           = (pinchConfirmed h
              \<or> (\<exists>j\<le>k. frame_now2 (fs ! j) - pinchStartTime h \<ge> PINCH_DEBOUNCE_MS))"
    and "pinchJustConfirmed (run_frames h fs ! k)
           = (\<not> pinchConfirmed h
              \<and> frame_now2 (fs ! k) - pinchStartTime h \<ge> PINCH_DEBOUNCE_MS
              \<and> (\<forall>j<k. \<not> frame_now2 (fs ! j) - pinchStartTime h \<ge> PINCH_DEBOUNCE_MS))"
  using assms
proof (induction fs arbitrary: h k)
  case Nil
  {
    case 1 then show ?case by simp
  next
    case 2 then show ?case by simp
  next
    case 3 then show ?case by simp
  next
    case 4 then show ?case by simp
  }
next
  case (Cons f fs)
  {
    case 1
    then show ?case
      by (cases k) (simp_all add: frame_hold Cons.IH(1))
  next
    case 2
    then show ?case
      by (cases k) (simp_all add: frame_hold Cons.IH(2))
  next
    case 3
    show ?case
    proof (cases k)
      case 0
      with 3 show ?thesis by (simp add: frame_hold)
    next
      case (Suc i)
      with 3 have h: "isPinching (process_frame h f)" "list_all holds fs" "i < length fs"
        and hf: "holds f"
        by (simp_all add: frame_hold)
      show ?thesis
        unfolding Suc ex_le_Cons [where P = "\<lambda>x. frame_now2 x - pinchStartTime h \<ge> PINCH_DEBOUNCE_MS"]
        using Cons.IH(3) [OF h] frame_hold(2,3) [OF "3"(1) hf]
        by auto
    qed
  next
    case 4
    show ?case
    proof (cases k)
      case 0
      with 4 show ?thesis by (simp add: frame_hold)
    next
      case (Suc i)
      with 4 have h: "isPinching (process_frame h f)" "list_all holds fs" "i < length fs"
        and hf: "holds f"
        by (simp_all add: frame_hold)
      show ?thesis
        unfolding Suc all_less_Cons [where P = "\<lambda>x. \<not> frame_now2 x - pinchStartTime h \<ge> PINCH_DEBOUNCE_MS"]
        using Cons.IH(4) [OF h] frame_hold(2,3) [OF "4"(1) hf]
        by auto
    qed
  }
qed


lemma engaged_run:
  assumes np: "\<not> isPinching h" and e: "engages f0" and hs: "list_all holds fs"
    and k: "k < length (f0 # fs)"
  shows "isPinching (run_frames h (f0 # fs) ! k)"
    and "pinchJustConfirmed (run_frames h (f0 # fs) ! k)
           = (elapsed_since f0 ((f0 # fs) ! k) \<ge> PINCH_DEBOUNCE_MS
              \<and> (\<forall>j<k. elapsed_since f0 ((f0 # fs) ! j) < PINCH_DEBOUNCE_MS))"
    and "pinchConfirmed (run_frames h (f0 # fs) ! k)
           = (\<exists>j\<le>k. elapsed_since f0 ((f0 # fs) ! j) \<ge> PINCH_DEBOUNCE_MS)"
proof -
  let ?h0 = "process_frame h f0"
  note h0 = frame_engage [OF np e]
  show "isPinching (run_frames h (f0 # fs) ! k)"
  proof (cases k)
    case 0
    then show ?thesis by (simp add: h0)
  next
    case (Suc i)
    with k have i: "i < length fs" by simp
    from held_run(1) [OF h0(1) hs i] Suc show ?thesis by simp
  qed
  show "pinchJustConfirmed (run_frames h (f0 # fs) ! k)
           = (elapsed_since f0 ((f0 # fs) ! k) \<ge> PINCH_DEBOUNCE_MS
              \<and> (\<forall>j<k. elapsed_since f0 ((f0 # fs) ! j) < PINCH_DEBOUNCE_MS))"
  proof (cases k)
    case 0
    then show ?thesis by (simp add: h0)
  next
    case (Suc i)
    with k have i: "i < length fs" by simp
    have "pinchJustConfirmed (run_frames ?h0 fs ! i)
            = (\<not> elapsed_since f0 f0 \<ge> PINCH_DEBOUNCE_MS
               \<and> elapsed_since f0 (fs ! i) \<ge> PINCH_DEBOUNCE_MS
               \<and> (\<forall>j<i. elapsed_since f0 (fs ! j) < PINCH_DEBOUNCE_MS))"
      unfolding held_run(4) [OF h0(1) hs i] h0 elapsed_since_def by (simp add: not_le)
    then show ?thesis
      unfolding Suc all_less_Cons [where P = "\<lambda>x. elapsed_since f0 x < PINCH_DEBOUNCE_MS"]
      by (auto simp: not_le)
  qed
  show "pinchConfirmed (run_frames h (f0 # fs) ! k)
           = (\<exists>j\<le>k. elapsed_since f0 ((f0 # fs) ! j) \<ge> PINCH_DEBOUNCE_MS)"
  proof (cases k)
    case 0
    then show ?thesis by (simp add: h0)
  next
    case (Suc i)
    with k have i: "i < length fs" by simp
    have "pinchConfirmed (run_frames ?h0 fs ! i)
            = (elapsed_since f0 f0 \<ge> PINCH_DEBOUNCE_MS
               \<or> (\<exists>j\<le>i. elapsed_since f0 (fs ! j) \<ge> PINCH_DEBOUNCE_MS))"
      unfolding held_run(3) [OF h0(1) hs i] h0 elapsed_since_def by simp
    then show ?thesis
      unfolding Suc ex_le_Cons [where P = "\<lambda>x. elapsed_since f0 x \<ge> PINCH_DEBOUNCE_MS"]
      by simp
  qed
qed

lemma run_frames_append:
  "run_frames h (xs @ ys) = run_frames h xs @ run_frames (last (h # run_frames h xs)) ys"
  by (induction xs arbitrary: h) simp_all

lemma length_run_frames [simp]: "length (run_frames h fs) = length fs"
  by (induction fs arbitrary: h) simp_all

lemma short_pinch:
  assumes np: "\<not> isPinching h" and e: "engages f0" and hs: "list_all holds fs"
    and early: "list_all (\<lambda>f. elapsed_since f0 f < PINCH_DEBOUNCE_MS) (f0 # fs)"
    and r: "releases r"
  shows "list_all (\<lambda>s. \<not> pinchConfirmed s \<and> \<not> pinchJustConfirmed s)
           (run_frames h (f0 # fs @ [r]))"
proof -
  let ?run = "run_frames h (f0 # fs)"
  have ne: "?run \<noteq> []" by simp
  have split: "run_frames h (f0 # fs @ [r]) = ?run @ [process_frame (last ?run) r]"
    using run_frames_append [of h "f0 # fs" "[r]"] by simp
  have el: "elapsed_since f0 ((f0 # fs) ! j) < PINCH_DEBOUNCE_MS" if "j < length (f0 # fs)" for j
    using early that unfolding list_all_iff by (metis nth_mem)
  have quiet: "\<not> pinchConfirmed (?run ! k) \<and> \<not> pinchJustConfirmed (?run ! k)"
    if k: "k < length (f0 # fs)" for k
  proof -
    have "\<not> elapsed_since f0 ((f0 # fs) ! j) \<ge> PINCH_DEBOUNCE_MS" if "j \<le> k" for j
      using el [of j] that k by (simp add: not_le)
    then show ?thesis
      unfolding engaged_run(2,3) [OF np e hs k] by blast
  qed
  have "last ?run = ?run ! (length (f0 # fs) - 1)"
    using last_conv_nth [OF ne] by simp
  then have "isPinching (last ?run)"
    using engaged_run(1) [OF np e hs, of "length (f0 # fs) - 1"] by simp
  then have rel: "\<not> pinchConfirmed (process_frame (last ?run) r)
                \<and> \<not> pinchJustConfirmed (process_frame (last ?run) r)"
    using frame_release(2,3) [OF _ r] by blast
  have "\<not> pinchConfirmed s \<and> \<not> pinchJustConfirmed s" if "s \<in> set ?run" for s
  proof -
    from that obtain k where "k < length ?run" "?run ! k = s"
      unfolding in_set_conv_nth by blast
    then show ?thesis using quiet [of k] by (simp del: run_frames.simps)
  qed
  then show ?thesis
    unfolding split list_all_iff using rel by auto
qed

text \<open>
  C6. Pinch debounce and hysteresis. Take a hand that is not pinching, a frame f0 whose
  thumb-index distance is below 0.06 (the pinch engages, at the clock reading of f0), and
  following frames whose distance does not rise above 0.09 (so in particular frames that
  stay below 0.06). After the k-th of these frames pinchJustConfirmed is set exactly when
  that frame is the first at which 120 ms have elapsed since the engagement, and
  pinchConfirmed is set exactly when some frame up to it has measured 120 ms: the flag
  pinchJustConfirmed is raised on that one frame and on no other frame of the pinch. If
  all these frames measure less than 120 ms and a frame whose distance is above 0.09
  follows, neither pinchConfirmed nor pinchJustConfirmed is set after any frame of the
  episode, the releasing frame included.
\<close>

theorem pinch_debounce:
  assumes "\<not> isPinching h" and "engages f0" and "list_all holds fs"
  shows "(\<forall>k < length (f0 # fs).
            pinchJustConfirmed (run_frames h (f0 # fs) ! k)
              = (elapsed_since f0 ((f0 # fs) ! k) \<ge> PINCH_DEBOUNCE_MS
                 \<and> (\<forall>j<k. elapsed_since f0 ((f0 # fs) ! j) < PINCH_DEBOUNCE_MS))
            \<and> pinchConfirmed (run_frames h (f0 # fs) ! k)
              = (\<exists>j\<le>k. elapsed_since f0 ((f0 # fs) ! j) \<ge> PINCH_DEBOUNCE_MS))
       \<and> (list_all (\<lambda>f. elapsed_since f0 f < PINCH_DEBOUNCE_MS) (f0 # fs) \<and> releases r \<longrightarrow>
            list_all (\<lambda>s. \<not> pinchConfirmed s \<and> \<not> pinchJustConfirmed s)
              (run_frames h (f0 # fs @ [r])))
       \<and> PINCH_THRESHOLD = 6 / 100 \<and> RELEASE_THRESHOLD = 9 / 100 \<and> PINCH_DEBOUNCE_MS = 120"
proof -
  have a: "\<forall>k < length (f0 # fs).
            pinchJustConfirmed (run_frames h (f0 # fs) ! k)
              = (elapsed_since f0 ((f0 # fs) ! k) \<ge> PINCH_DEBOUNCE_MS
                 \<and> (\<forall>j<k. elapsed_since f0 ((f0 # fs) ! j) < PINCH_DEBOUNCE_MS))
            \<and> pinchConfirmed (run_frames h (f0 # fs) ! k)
              = (\<exists>j\<le>k. elapsed_since f0 ((f0 # fs) ! j) \<ge> PINCH_DEBOUNCE_MS)"
    using engaged_run(2,3) [OF assms] by blast
  have b: "list_all (\<lambda>f. elapsed_since f0 f < PINCH_DEBOUNCE_MS) (f0 # fs) \<and> releases r \<longrightarrow>
            list_all (\<lambda>s. \<not> pinchConfirmed s \<and> \<not> pinchJustConfirmed s)
              (run_frames h (f0 # fs @ [r]))"
    using short_pinch [OF assms] by blast
  have c: "PINCH_THRESHOLD = 6 / 100 \<and> RELEASE_THRESHOLD = 9 / 100 \<and> PINCH_DEBOUNCE_MS = 120"
    by (simp add: PINCH_THRESHOLD_def RELEASE_THRESHOLD_def PINCH_DEBOUNCE_MS_def)
  show ?thesis by (rule conjI [OF a conjI [OF b c]])
qed


lemma ex_le_Suc_nat: "(\<exists>j\<le>Suc n. P j) \<longleftrightarrow> (\<exists>j\<le>n. P j) \<or> P (Suc n)"
  by (auto simp: le_Suc_eq)

lemma sample_frame_dists:
  "frame_dist \<lparr>frame_landmarks = Some (replicate 21 \<lparr>px = 1 / 2, py = 1 / 2\<rparr>),
       frame_width = cw, frame_height = ch, frame_now1 = t1, frame_now2 = t2\<rparr> = Some 0"
  "frame_dist \<lparr>frame_landmarks = Some ((replicate 21 \<lparr>px = 0, py = 0\<rparr>)[4 := \<lparr>px = 1, py = 0\<rparr>]),
       frame_width = cw, frame_height = ch, frame_now1 = t1, frame_now2 = t2\<rparr> = Some 1"
  by (simp_all add: frame_dist_def dist_pt_def THUMB_TIP_def INDEX_TIP_def)

theorem pinch_debounce_witness:
  "\<not> isPinching createHandState
   \<and> engages 
      \<lparr>frame_landmarks = Some (replicate 21 \<lparr>px = 1 / 2, py = 1 / 2\<rparr>),
       frame_width = 640, frame_height = 480,
       frame_now1 = 1000, frame_now2 = 1000\<rparr>
   \<and> list_all holds [
      \<lparr>frame_landmarks = Some (replicate 21 \<lparr>px = 1 / 2, py = 1 / 2\<rparr>),
       frame_width = 640, frame_height = 480,
       frame_now1 = 1050, frame_now2 = 1050\<rparr>, 
      \<lparr>frame_landmarks = Some (replicate 21 \<lparr>px = 1 / 2, py = 1 / 2\<rparr>),
       frame_width = 640, frame_height = 480,
       frame_now1 = 1130, frame_now2 = 1130\<rparr>, 
      \<lparr>frame_landmarks = Some (replicate 21 \<lparr>px = 1 / 2, py = 1 / 2\<rparr>),
       frame_width = 640, frame_height = 480,
       frame_now1 = 1200, frame_now2 = 1200\<rparr>]
   \<and> map pinchJustConfirmed (run_frames createHandState 
     [\<lparr>frame_landmarks = Some (replicate 21 \<lparr>px = 1 / 2, py = 1 / 2\<rparr>),
       frame_width = 640, frame_height = 480,
       frame_now1 = 1000, frame_now2 = 1000\<rparr>,
      \<lparr>frame_landmarks = Some (replicate 21 \<lparr>px = 1 / 2, py = 1 / 2\<rparr>),
       frame_width = 640, frame_height = 480,
       frame_now1 = 1050, frame_now2 = 1050\<rparr>,
      \<lparr>frame_landmarks = Some (replicate 21 \<lparr>px = 1 / 2, py = 1 / 2\<rparr>),
       frame_width = 640, frame_height = 480,
       frame_now1 = 1130, frame_now2 = 1130\<rparr>,
      \<lparr>frame_landmarks = Some (replicate 21 \<lparr>px = 1 / 2, py = 1 / 2\<rparr>),
       frame_width = 640, frame_height = 480,
       frame_now1 = 1200, frame_now2 = 1200\<rparr>]) = [False, False, True, False]
   \<and> map pinchConfirmed (run_frames createHandState 
     [\<lparr>frame_landmarks = Some (replicate 21 \<lparr>px = 1 / 2, py = 1 / 2\<rparr>),
       frame_width = 640, frame_height = 480,
       frame_now1 = 1000, frame_now2 = 1000\<rparr>,
      \<lparr>frame_landmarks = Some (replicate 21 \<lparr>px = 1 / 2, py = 1 / 2\<rparr>),
       frame_width = 640, frame_height = 480,
       frame_now1 = 1050, frame_now2 = 1050\<rparr>,
      \<lparr>frame_landmarks = Some (replicate 21 \<lparr>px = 1 / 2, py = 1 / 2\<rparr>),
       frame_width = 640, frame_height = 480,
       frame_now1 = 1130, frame_now2 = 1130\<rparr>,
      \<lparr>frame_landmarks = Some (replicate 21 \<lparr>px = 1 / 2, py = 1 / 2\<rparr>),
       frame_width = 640, frame_height = 480,
       frame_now1 = 1200, frame_now2 = 1200\<rparr>]) = [False, False, True, True]
   \<and> list_all holds [
      \<lparr>frame_landmarks = Some (replicate 21 \<lparr>px = 1 / 2, py = 1 / 2\<rparr>),
       frame_width = 640, frame_height = 480,
       frame_now1 = 1050, frame_now2 = 1050\<rparr>]
   \<and> list_all (\<lambda>f. elapsed_since 
      \<lparr>frame_landmarks = Some (replicate 21 \<lparr>px = 1 / 2, py = 1 / 2\<rparr>),
       frame_width = 640, frame_height = 480,
       frame_now1 = 1000, frame_now2 = 1000\<rparr> f < PINCH_DEBOUNCE_MS) [
      \<lparr>frame_landmarks = Some (replicate 21 \<lparr>px = 1 / 2, py = 1 / 2\<rparr>),
       frame_width = 640, frame_height = 480,
       frame_now1 = 1000, frame_now2 = 1000\<rparr>, 
      \<lparr>frame_landmarks = Some (replicate 21 \<lparr>px = 1 / 2, py = 1 / 2\<rparr>),
       frame_width = 640, frame_height = 480,
       frame_now1 = 1050, frame_now2 = 1050\<rparr>]
   \<and> releases 
      \<lparr>frame_landmarks = Some ((replicate 21 \<lparr>px = 0, py = 0\<rparr>)[4 := \<lparr>px = 1, py = 0\<rparr>]),
       frame_width = 640, frame_height = 480,
       frame_now1 = 1100, frame_now2 = 1100\<rparr>
   \<and> list_all (\<lambda>s. \<not> pinchConfirmed s \<and> \<not> pinchJustConfirmed s)
        (run_frames createHandState 
     [\<lparr>frame_landmarks = Some (replicate 21 \<lparr>px = 1 / 2, py = 1 / 2\<rparr>),
       frame_width = 640, frame_height = 480,
       frame_now1 = 1000, frame_now2 = 1000\<rparr>,
      \<lparr>frame_landmarks = Some (replicate 21 \<lparr>px = 1 / 2, py = 1 / 2\<rparr>),
       frame_width = 640, frame_height = 480,
       frame_now1 = 1050, frame_now2 = 1050\<rparr>,
      \<lparr>frame_landmarks = Some ((replicate 21 \<lparr>px = 0, py = 0\<rparr>)[4 := \<lparr>px = 1, py = 0\<rparr>]),
       frame_width = 640, frame_height = 480,
       frame_now1 = 1100, frame_now2 = 1100\<rparr>])"
proof -
  let ?f0 = "
      \<lparr>frame_landmarks = Some (replicate 21 \<lparr>px = 1 / 2, py = 1 / 2\<rparr>),
       frame_width = 640, frame_height = 480,
       frame_now1 = 1000, frame_now2 = 1000\<rparr>"
  let ?f1 = "
      \<lparr>frame_landmarks = Some (replicate 21 \<lparr>px = 1 / 2, py = 1 / 2\<rparr>),
       frame_width = 640, frame_height = 480,
       frame_now1 = 1050, frame_now2 = 1050\<rparr>"
  let ?f2 = "
      \<lparr>frame_landmarks = Some (replicate 21 \<lparr>px = 1 / 2, py = 1 / 2\<rparr>),
       frame_width = 640, frame_height = 480,
       frame_now1 = 1130, frame_now2 = 1130\<rparr>"
  let ?f3 = "
      \<lparr>frame_landmarks = Some (replicate 21 \<lparr>px = 1 / 2, py = 1 / 2\<rparr>),
       frame_width = 640, frame_height = 480,
       frame_now1 = 1200, frame_now2 = 1200\<rparr>"
  let ?r = "
      \<lparr>frame_landmarks = Some ((replicate 21 \<lparr>px = 0, py = 0\<rparr>)[4 := \<lparr>px = 1, py = 0\<rparr>]),
       frame_width = 640, frame_height = 480,
       frame_now1 = 1100, frame_now2 = 1100\<rparr>"
  let ?run = "run_frames createHandState [?f0, ?f1, ?f2, ?f3]"
  have h1: "\<not> isPinching createHandState" by (simp add: createHandState_def)
  have h2: "engages ?f0" by (simp add: engages_def sample_frame_dists PINCH_THRESHOLD_def)
  have h3: "list_all holds [?f1, ?f2, ?f3]"
    by (simp add: holds_def sample_frame_dists RELEASE_THRESHOLD_def)
  have h4: "list_all holds [?f1]"
    by (simp add: holds_def sample_frame_dists RELEASE_THRESHOLD_def)
  have h5: "list_all (\<lambda>f. elapsed_since ?f0 f < PINCH_DEBOUNCE_MS) [?f0, ?f1]"
    by (simp add: elapsed_since_def PINCH_DEBOUNCE_MS_def)
  have h6: "releases ?r" by (simp add: releases_def sample_frame_dists RELEASE_THRESHOLD_def)
  from pinch_debounce [OF h1 h2 h3, of ?r]
  have long: "\<forall>k < length [?f0, ?f1, ?f2, ?f3].
            pinchJustConfirmed (?run ! k)
              = (elapsed_since ?f0 ([?f0, ?f1, ?f2, ?f3] ! k) \<ge> PINCH_DEBOUNCE_MS
                 \<and> (\<forall>j<k. elapsed_since ?f0 ([?f0, ?f1, ?f2, ?f3] ! j) < PINCH_DEBOUNCE_MS))
            \<and> pinchConfirmed (?run ! k)
              = (\<exists>j\<le>k. elapsed_since ?f0 ([?f0, ?f1, ?f2, ?f3] ! j) \<ge> PINCH_DEBOUNCE_MS)"
    by blast
  note ev = elapsed_since_def PINCH_DEBOUNCE_MS_def ex_le_Suc_nat All_less_Suc
  have k0: "\<not> pinchJustConfirmed (?run ! 0) \<and> \<not> pinchConfirmed (?run ! 0)"
    using long [rule_format, of 0]
    by (simp add: ev del: run_frames.simps)
  have k1: "\<not> pinchJustConfirmed (?run ! Suc 0) \<and> \<not> pinchConfirmed (?run ! Suc 0)"
    using long [rule_format, of "Suc 0"]
    by (simp add: ev del: run_frames.simps)
  have k2: "pinchJustConfirmed (?run ! Suc (Suc 0)) \<and> pinchConfirmed (?run ! Suc (Suc 0))"
    using long [rule_format, of "Suc (Suc 0)"]
    by (simp add: ev del: run_frames.simps)
  have k3: "\<not> pinchJustConfirmed (?run ! Suc (Suc (Suc 0)))
            \<and> pinchConfirmed (?run ! Suc (Suc (Suc 0)))"
    using long [rule_format, of "Suc (Suc (Suc 0))"]
    by (simp add: ev del: run_frames.simps)
  have len: "length ?run = Suc (Suc (Suc (Suc 0)))" by simp
  have shape: "xs = [xs ! 0, xs ! Suc 0, xs ! Suc (Suc 0), xs ! Suc (Suc (Suc 0))]"
    if "length xs = Suc (Suc (Suc (Suc 0)))" for xs :: "hand_state list"
    using that by (auto simp: length_Suc_conv)
  have js: "map pinchJustConfirmed ?run = [False, False, True, False]"
    by (subst shape [OF len]) (simp add: k0 k1 k2 k3 del: run_frames.simps)
  have cs: "map pinchConfirmed ?run = [False, False, True, True]"
    by (subst shape [OF len]) (simp add: k0 k1 k2 k3 del: run_frames.simps)
  from pinch_debounce [OF h1 h2 h4, of ?r] h5 h6
  have short: "list_all (\<lambda>s. \<not> pinchConfirmed s \<and> \<not> pinchJustConfirmed s)
        (run_frames createHandState ([?f0, ?f1] @ [?r]))"
    by simp
  from h1 h2 h3 js cs h4 h5 h6 short show ?thesis
    by (simp del: run_frames.simps)
qed

end
